theory Spec2Isabelle
  imports Complex_Main "HOL-Library.AList" "HOL-Library.Multiset"
begin

section \<open>Data model (src/types/schema.ts)\<close>

text \<open>
  Every interface of \<^verbatim>\<open>src/types/schema.ts\<close> is a record. An optional property
  (\<^verbatim>\<open>group?: string\<close>) is an \<open>option\<close>: \<open>None\<close> stands for a property that is absent or
  \<^verbatim>\<open>undefined\<close>, which \<^verbatim>\<open>JSON.stringify\<close> does not tell apart either. Selectors carry the
  name of the property, prefixed where two interfaces share a property name or where the
  name is taken in HOL (\<open>field_id\<close> for \<^verbatim>\<open>SchemaField.id\<close>, \<open>schema_fields\<close> for
  \<^verbatim>\<open>SchemaDefinition.fields\<close>).

  Attributes that the store only carries around and never reads (index, normalization,
  validation and item configuration, examples, prompt instructions, output template, the
  order of a group) are kept as JSON values. A string is a list of characters, one for
  each code unit.

  A number is an IEEE double: a finite value other than negative zero (each is a rational
  number), negative zero, one of the two infinities, or not-a-number. \<^verbatim>\<open>JSON.parse\<close> yields
  negative zero for the text \<^verbatim>\<open>-0\<close> and an infinity for a literal out of range, such as
  \<^verbatim>\<open>1e400\<close>.
\<close>

datatype number = Finite rat | NegativeZero | PositiveInfinity | NegativeInfinity | NaN

text \<open>
  A JSON value; an object is the list of its own properties in the order in which they
  are enumerated.
\<close>

datatype json =
    JNull
  | JBool bool
  | JNum number
  | JStr string
  | JArr "json list"
  | JObj "(string \<times> json) list"

text \<open>\<^verbatim>\<open>LocalizedString | string\<close>: the pair of per-language strings, or the legacy plain string.\<close>

datatype LocalizedText = Localized (de: string) (en: string) | PlainText string

record VocabularyConcept =
  concept_label :: LocalizedText
  concept_uri :: "string option"
  concept_value :: "string option"
  concept_description :: "LocalizedText option"
  altLabels :: "json option"
  icon :: "string option"
  schema_file :: "string option"
  broader :: "string option"
  narrower :: "string list option"

datatype VocabularyType = Skos | Closed | OpenVocabulary

record Vocabulary =
  vocabulary_type :: VocabularyType
  scheme :: "string option"
  hierarchical :: "bool option"
  concepts :: "VocabularyConcept list"
  skohubUrl :: "string option"

datatype FieldDatatype =
  DtString | DtArray | DtUri | DtNumber | DtDate | DtBoolean | DtObject

record SystemConfig =
  system_path :: string
  system_uri :: string
  system_datatype :: FieldDatatype
  multiple :: bool
  required :: bool
  ask_user :: bool
  ai_fillable :: bool
  repo_field :: "bool option"
  system_index :: "json option"
  vocabulary :: "Vocabulary option"
  normalization :: "json option"
  validation :: "json option"
  system_items :: "json option"

record SchemaField =
  field_id :: string
  field_group :: "string option"
  field_label :: LocalizedText
  field_description :: "LocalizedText option"
  examples :: "json option"
  prompt :: "LocalizedText option"
  promptInstructions :: "json option"
  system :: SystemConfig

record SchemaGroup =
  group_id :: string
  group_label :: LocalizedText
  group_description :: "LocalizedText option"
  group_order :: "json option"

record SchemaDefinition =
  profileId :: string
  version :: string
  jsonld_context :: "(string \<times> string) list option"
  groups :: "SchemaGroup list"
  schema_fields :: "SchemaField list"
  output_template :: "json option"

datatype ChangeType = Added | Changed | Removed | Fixed

record ChangelogEntry =
  changelog_date :: string
  changelog_type :: ChangeType
  changelog_description :: string
  fieldId :: "string option"
  author :: "string option"

record VersionEntry =
  releaseDate :: string
  isDefault :: "bool option"
  entry_schemas :: "string list"
  changelog :: "ChangelogEntry list option"

text \<open>
  A \<^verbatim>\<open>Record<string, T>\<close> is a JavaScript object: a list of its own properties in the
  order in which \<^verbatim>\<open>Object.keys\<close> and \<^verbatim>\<open>Object.entries\<close> enumerate them. A \<^verbatim>\<open>Map\<close> is an
  association list in insertion order; \<open>AList.update\<close> is \<^verbatim>\<open>Map.prototype.set\<close> (a present
  key keeps its place, a new key goes last) and \<open>AList.delete\<close> is \<^verbatim>\<open>delete\<close>.
\<close>

type_synonym 'a js_object = "(string \<times> 'a) list"

record ContextManifest =
  contextName :: string
  manifest_name :: string
  manifest_basedOn :: "string option"
  versions :: "VersionEntry js_object"

record ContextEntry =
  entry_name :: string
  entry_description :: "string option"
  defaultVersion :: string
  entry_path :: string
  entry_basedOn :: "string option"

record ContextRegistry =
  contexts :: "ContextEntry js_object"
  defaultContext :: string

record ContentType =
  ct_label :: LocalizedText
  ct_icon :: string
  ct_schema_file :: string

section \<open>JavaScript objects and arrays\<close>

text \<open>
  The own property keys of an object are enumerated with the array indices first, in
  ascending numeric order, and the other strings after them in the order of their creation.
  An array index is the canonical decimal form of an integer below \<open>2^32 - 1\<close>.
\<close>

definition is_digit :: "char \<Rightarrow> bool" where
  "is_digit c \<longleftrightarrow> c \<in> set ''0123456789''"

definition digit_val :: "char \<Rightarrow> nat" where
  "digit_val c = of_char c - 48"

definition decimal_val :: "string \<Rightarrow> nat" where
  "decimal_val k = foldl (\<lambda>n c. 10 * n + digit_val c) 0 k"

definition is_array_index :: "string \<Rightarrow> bool" where
  "is_array_index k \<longleftrightarrow>
     k \<noteq> [] \<and> list_all is_digit k \<and> (k = ''0'' \<or> hd k \<noteq> CHR ''0'')
     \<and> length k \<le> 10 \<and> decimal_val k < 2 ^ 32 - 1"

text \<open>A new array-index key goes before the first key that is no index or a larger one.\<close>

fun insert_index_key :: "string \<Rightarrow> 'a \<Rightarrow> 'a js_object \<Rightarrow> 'a js_object" where
  "insert_index_key k v [] = [(k, v)]"
| "insert_index_key k v ((k', v') # ps) =
     (if is_array_index k' \<and> decimal_val k' < decimal_val k
      then (k', v') # insert_index_key k v ps
      else (k, v) # (k', v') # ps)"

text \<open>\<^verbatim>\<open>{ ...obj, [k]: v }\<close>: a present key keeps its place and takes the new value.\<close>

definition obj_set :: "string \<Rightarrow> 'a \<Rightarrow> 'a js_object \<Rightarrow> 'a js_object" where
  "obj_set k v ob =
     (if k \<in> fst ` set ob then AList.update k v ob
      else if is_array_index k then insert_index_key k v ob
      else ob @ [(k, v)])"

text \<open>\<^verbatim>\<open>const { [k]: _, ...rest } = obj\<close>: the other own properties, in their order.\<close>

definition obj_rest :: "string \<Rightarrow> 'a js_object \<Rightarrow> 'a js_object" where
  "obj_rest k ob = AList.delete k ob"

definition obj_keys :: "'a js_object \<Rightarrow> string list" where
  "obj_keys ob = map fst ob"




text \<open>\<^verbatim>\<open>Array.prototype.findIndex\<close>; \<open>None\<close> is the result \<^verbatim>\<open>-1\<close>.\<close>

fun findIndex :: "('a \<Rightarrow> bool) \<Rightarrow> 'a list \<Rightarrow> nat option" where
  "findIndex p [] = None"
| "findIndex p (x # xs) =
     (if p x then Some 0 else map_option Suc (findIndex p xs))"

text \<open>
  \<^verbatim>\<open>xs.splice(i, 1)\<close> for an index \<open>i\<close> of the array: what is left of the array.
\<close>

definition splice_remove :: "nat \<Rightarrow> 'a list \<Rightarrow> 'a list" where
  "splice_remove i xs = take i xs @ drop (Suc i) xs"

text \<open>
  \<^verbatim>\<open>xs.splice(start, 0, x)\<close> for an integer \<open>start\<close>: a negative start counts from the end
  and stops at the front, a start past the end inserts at the end.
\<close>

definition splice_insert :: "int \<Rightarrow> 'a \<Rightarrow> 'a list \<Rightarrow> 'a list" where
  "splice_insert start x xs =
     (let len = int (length xs);
          actualStart = (if start < 0 then max (len + start) 0 else min start len)
      in take (nat actualStart) xs @ x # drop (nat actualStart) xs)"

section \<open>\<^verbatim>\<open>JSON.parse(JSON.stringify(x))\<close>\<close>

text \<open>
  \<^verbatim>\<open>JSON.stringify\<close> writes a finite number as a literal that \<^verbatim>\<open>JSON.parse\<close> reads back as
  the same number, negative zero as \<^verbatim>\<open>0\<close>, and an infinity or not-a-number as \<^verbatim>\<open>null\<close>. It
  writes strings, booleans and \<^verbatim>\<open>null\<close> as they are, the elements of an array in their
  order and the own properties of an object in the order of their enumeration, in which
  \<^verbatim>\<open>JSON.parse\<close> creates them again. \<open>json_copy\<close> is the value that \<^verbatim>\<open>JSON.parse\<close> yields for the
  text that \<^verbatim>\<open>JSON.stringify\<close> wrote.
\<close>

fun json_copy :: "json \<Rightarrow> json" where
  "json_copy JNull = JNull"
| "json_copy (JBool b) = JBool b"
| "json_copy (JNum x) =
     (case x of
        Finite q \<Rightarrow> JNum (Finite q)
      | NegativeZero \<Rightarrow> JNum (Finite 0)
      | PositiveInfinity \<Rightarrow> JNull
      | NegativeInfinity \<Rightarrow> JNull
      | NaN \<Rightarrow> JNull)"
| "json_copy (JStr s) = JStr s"
| "json_copy (JArr xs) = JArr (map json_copy xs)"
| "json_copy (JObj ps) = JObj (map (\<lambda>(k, v). (k, json_copy v)) ps)"

text \<open>
  The same on the records of the data model: the attributes kept as JSON values are
  copied, and every other attribute is a string, a boolean or a list of strings.
\<close>

definition concept_copy :: "VocabularyConcept \<Rightarrow> VocabularyConcept" where
  "concept_copy c = c\<lparr>altLabels := map_option json_copy (altLabels c)\<rparr>"

definition vocabulary_copy :: "Vocabulary \<Rightarrow> Vocabulary" where
  "vocabulary_copy v = v\<lparr>concepts := map concept_copy (concepts v)\<rparr>"

definition system_copy :: "SystemConfig \<Rightarrow> SystemConfig" where
  "system_copy c =
     c\<lparr>system_index := map_option json_copy (system_index c),
       vocabulary := map_option vocabulary_copy (vocabulary c),
       normalization := map_option json_copy (normalization c),
       validation := map_option json_copy (validation c),
       system_items := map_option json_copy (system_items c)\<rparr>"

definition field_copy :: "SchemaField \<Rightarrow> SchemaField" where
  "field_copy f =
     f\<lparr>examples := map_option json_copy (examples f),
       promptInstructions := map_option json_copy (promptInstructions f),
       system := system_copy (system f)\<rparr>"

definition group_copy :: "SchemaGroup \<Rightarrow> SchemaGroup" where
  "group_copy g = g\<lparr>group_order := map_option json_copy (group_order g)\<rparr>"

definition schema_copy :: "SchemaDefinition \<Rightarrow> SchemaDefinition" where
  "schema_copy D =
     D\<lparr>groups := map group_copy (groups D),
       schema_fields := map field_copy (schema_fields D),
       output_template := map_option json_copy (output_template D)\<rparr>"

subsection \<open>Schema documents as JSON values\<close>

text \<open>
  The JSON value of a schema document: every interface as the object of its properties,
  under the names of \<^verbatim>\<open>src/types/schema.ts\<close>, an optional property that is absent or
  \<^verbatim>\<open>undefined\<close> left out.
\<close>

definition optional :: "string \<Rightarrow> ('a \<Rightarrow> json) \<Rightarrow> 'a option \<Rightarrow> (string \<times> json) list" where
  "optional k f x = (case x of None \<Rightarrow> [] | Some v \<Rightarrow> [(k, f v)])"

fun json_of_text :: "LocalizedText \<Rightarrow> json" where
  "json_of_text (Localized d e) = JObj [(''de'', JStr d), (''en'', JStr e)]"
| "json_of_text (PlainText t) = JStr t"

definition json_of_concept :: "VocabularyConcept \<Rightarrow> json" where
  "json_of_concept c = JObj
     ((''label'', json_of_text (concept_label c))
      # optional ''uri'' JStr (concept_uri c)
      @ optional ''value'' JStr (concept_value c)
      @ optional ''description'' json_of_text (concept_description c)
      @ optional ''altLabels'' (\<lambda>j. j) (altLabels c)
      @ optional ''icon'' JStr (icon c)
      @ optional ''schema_file'' JStr (schema_file c)
      @ optional ''broader'' JStr (broader c)
      @ optional ''narrower'' (\<lambda>xs. JArr (map JStr xs)) (narrower c))"

fun json_of_vocabulary_type :: "VocabularyType \<Rightarrow> json" where
  "json_of_vocabulary_type Skos = JStr ''skos''"
| "json_of_vocabulary_type Closed = JStr ''closed''"
| "json_of_vocabulary_type OpenVocabulary = JStr ''open''"

definition json_of_vocabulary :: "Vocabulary \<Rightarrow> json" where
  "json_of_vocabulary v = JObj
     ((''type'', json_of_vocabulary_type (vocabulary_type v))
      # optional ''scheme'' JStr (scheme v)
      @ optional ''hierarchical'' JBool (hierarchical v)
      @ [(''concepts'', JArr (map json_of_concept (concepts v)))]
      @ optional ''skohubUrl'' JStr (skohubUrl v))"

fun json_of_datatype :: "FieldDatatype \<Rightarrow> json" where
  "json_of_datatype DtString = JStr ''string''"
| "json_of_datatype DtArray = JStr ''array''"
| "json_of_datatype DtUri = JStr ''uri''"
| "json_of_datatype DtNumber = JStr ''number''"
| "json_of_datatype DtDate = JStr ''date''"
| "json_of_datatype DtBoolean = JStr ''boolean''"
| "json_of_datatype DtObject = JStr ''object''"

definition json_of_system :: "SystemConfig \<Rightarrow> json" where
  "json_of_system c = JObj
     ([(''path'', JStr (system_path c)), (''uri'', JStr (system_uri c)),
       (''datatype'', json_of_datatype (system_datatype c)),
       (''multiple'', JBool (multiple c)), (''required'', JBool (required c)),
       (''ask_user'', JBool (ask_user c)), (''ai_fillable'', JBool (ai_fillable c))]
      @ optional ''repo_field'' JBool (repo_field c)
      @ optional ''index'' (\<lambda>j. j) (system_index c)
      @ optional ''vocabulary'' json_of_vocabulary (vocabulary c)
      @ optional ''normalization'' (\<lambda>j. j) (normalization c)
      @ optional ''validation'' (\<lambda>j. j) (validation c)
      @ optional ''items'' (\<lambda>j. j) (system_items c))"

definition json_of_field :: "SchemaField \<Rightarrow> json" where
  "json_of_field f = JObj
     ((''id'', JStr (field_id f))
      # optional ''group'' JStr (field_group f)
      @ [(''label'', json_of_text (field_label f))]
      @ optional ''description'' json_of_text (field_description f)
      @ optional ''examples'' (\<lambda>j. j) (examples f)
      @ optional ''prompt'' json_of_text (prompt f)
      @ optional ''promptInstructions'' (\<lambda>j. j) (promptInstructions f)
      @ [(''system'', json_of_system (system f))])"

definition json_of_group :: "SchemaGroup \<Rightarrow> json" where
  "json_of_group g = JObj
     ([(''id'', JStr (group_id g)), (''label'', json_of_text (group_label g))]
      @ optional ''description'' json_of_text (group_description g)
      @ optional ''order'' (\<lambda>j. j) (group_order g))"

definition json_of_schema :: "SchemaDefinition \<Rightarrow> json" where
  "json_of_schema D = JObj
     ([(''profileId'', JStr (profileId D)), (''version'', JStr (version D))]
      @ optional ''@context'' (\<lambda>ps. JObj (map (\<lambda>(k, v). (k, JStr v)) ps)) (jsonld_context D)
      @ [(''groups'', JArr (map json_of_group (groups D))),
         (''fields'', JArr (map json_of_field (schema_fields D)))]
      @ optional ''output_template'' (\<lambda>j. j) (output_template D))"

section \<open>Store state (src/store/schema-store.ts)\<close>

record SchemaStoreState =
  contextRegistry :: "ContextRegistry option"
  contextManifests :: "(string \<times> ContextManifest) list"
  schemas :: "(string \<times> SchemaDefinition) list"
  activeContext :: string
  activeVersion :: string
  activeSchemaFile :: "string option"
  activeFieldId :: "string option"
  hasUnsavedChanges :: bool
  isLoading :: bool
  error :: "string option"
  sidebarCollapsed :: bool

definition initialState :: SchemaStoreState where
  "initialState =
     \<lparr> contextRegistry = None, contextManifests = [], schemas = [],
       activeContext = ''default'', activeVersion = ''1.8.0'',
       activeSchemaFile = None, activeFieldId = None,
       hasUnsavedChanges = False, isLoading = False, error = None,
       sidebarCollapsed = False \<rparr>"

text \<open>The composite cache key \<^verbatim>\<open>`${contextName}@${version}/${schemaFile}`\<close>.\<close>

definition cacheKey :: "string \<Rightarrow> string \<Rightarrow> string \<Rightarrow> string" where
  "cacheKey ctx ver schemaFile = ctx @ ''@'' @ ver @ ''/'' @ schemaFile"

definition markUnsaved :: "SchemaStoreState \<Rightarrow> SchemaStoreState" where
  "markUnsaved s = s\<lparr>hasUnsavedChanges := True\<rparr>"

definition markSaved :: "SchemaStoreState \<Rightarrow> SchemaStoreState" where
  "markSaved s = s\<lparr>hasUnsavedChanges := False\<rparr>"

definition setError :: "string option \<Rightarrow> SchemaStoreState \<Rightarrow> SchemaStoreState" where
  "setError e s = s\<lparr>error := e\<rparr>"

subsection \<open>Navigation\<close>





subsection \<open>Context lifecycle\<close>

definition deleteContext :: "string \<Rightarrow> SchemaStoreState \<Rightarrow> SchemaStoreState" where
  "deleteContext ctx s =
     (if ctx = ''default'' then s\<lparr>error := Some ''Cannot delete default context''\<rparr>
      else
        (case contextRegistry s of
           None \<Rightarrow> s
         | Some registry \<Rightarrow>
             markUnsaved
               (s\<lparr>contextRegistry :=
                    Some (registry\<lparr>contexts := obj_rest ctx (contexts registry)\<rparr>),
                  contextManifests := AList.delete ctx (contextManifests s),
                  activeContext := ''default''\<rparr>)))"

text \<open>
  \<^verbatim>\<open>a || b\<close> on an optional string: the empty string is as falsy as \<^verbatim>\<open>undefined\<close>.
\<close>

definition truthy :: "string option \<Rightarrow> bool" where
  "truthy x \<longleftrightarrow> (case x of None \<Rightarrow> False | Some v \<Rightarrow> v \<noteq> [])"

definition or_else :: "string option \<Rightarrow> string \<Rightarrow> string" where
  "or_else x d = (case x of None \<Rightarrow> d | Some v \<Rightarrow> if v = [] then d else v)"


subsection \<open>Version lifecycle\<close>

text \<open>
  The loop \<^verbatim>\<open>baseSchemas.forEach(...)\<close> of \<^verbatim>\<open>createVersion\<close> on the copy of the schema map:
  \<^verbatim>\<open>newSchema\<close> is \<^verbatim>\<open>JSON.parse(JSON.stringify(baseSchema))\<close> with \<^verbatim>\<open>version\<close> assigned.
\<close>

fun copySchemas ::
  "string \<Rightarrow> string \<Rightarrow> string \<Rightarrow> string list
     \<Rightarrow> (string \<times> SchemaDefinition) list \<Rightarrow> (string \<times> SchemaDefinition) list" where
  "copySchemas ctx baseVersion ver [] cache = cache"
| "copySchemas ctx baseVersion ver (schemaFile # rest) cache =
     (case map_of cache (cacheKey ctx baseVersion schemaFile) of
        None \<Rightarrow> copySchemas ctx baseVersion ver rest cache
      | Some baseSchema \<Rightarrow>
          copySchemas ctx baseVersion ver rest
            (AList.update (cacheKey ctx ver schemaFile)
               ((schema_copy baseSchema)\<lparr>version := ver\<rparr>) cache))"

text \<open>
  \<^verbatim>\<open>basedOnVersion || Object.keys(manifest.versions)[0]\<close>. With no version at all the
  result is \<^verbatim>\<open>undefined\<close>, which the property lookup and the template strings that follow
  turn into the string \<^verbatim>\<open>"undefined"\<close>.
\<close>

definition resolveBaseVersion :: "string option \<Rightarrow> ContextManifest \<Rightarrow> string" where
  "resolveBaseVersion basedOnVersion manifest =
     (if truthy basedOnVersion then the basedOnVersion
      else (case obj_keys (versions manifest) of [] \<Rightarrow> ''undefined'' | k # _ \<Rightarrow> k))"

text \<open>
  \<^verbatim>\<open>manifest.versions[baseVersion]?.schemas || ['core.json']\<close>. What a name inherits has no
  \<^verbatim>\<open>schemas\<close>, so the result for it is the default list, as for a version that the manifest
  lacks.
\<close>

definition resolveBaseSchemas :: "string \<Rightarrow> ContextManifest \<Rightarrow> string list" where
  "resolveBaseSchemas baseVersion manifest =
     (case map_of (versions manifest) baseVersion of
        None \<Rightarrow> [''core.json'']
      | Some versionEntry \<Rightarrow> entry_schemas versionEntry)"

definition createVersion ::
  "string \<Rightarrow> string \<Rightarrow> string option \<Rightarrow> string \<Rightarrow> string
     \<Rightarrow> SchemaStoreState \<Rightarrow> SchemaStoreState" where
  "createVersion ctx ver basedOnVersion today now s =
     (case map_of (contextManifests s) ctx of
        None \<Rightarrow> s
      | Some manifest \<Rightarrow>
          (let baseVersion = resolveBaseVersion basedOnVersion manifest;
               baseSchemas = resolveBaseSchemas baseVersion manifest;
               newSchemas = copySchemas ctx baseVersion ver baseSchemas (schemas s);
               updatedManifest = manifest\<lparr>versions :=
                 obj_set ver
                   \<lparr> releaseDate = today, isDefault = Some False,
                     entry_schemas = baseSchemas,
                     changelog = Some
                       [\<lparr> changelog_date = now, changelog_type = Added,
                          changelog_description =
                            ''Version '' @ ver @ '' erstellt basierend auf '' @ baseVersion,
                          fieldId = None, author = None \<rparr>] \<rparr>
                   (versions manifest)\<rparr>
           in markUnsaved
                (s\<lparr>contextManifests := AList.update ctx updatedManifest (contextManifests s),
                   schemas := newSchemas\<rparr>)))"

text \<open>
  The message of \<^verbatim>\<open>deleteVersion\<close> is \<^verbatim>\<open>'Kann letzte Version nicht loeschen'\<close>, written
  in the source with an o umlaut: the one code unit \<open>0xF6\<close>.
\<close>

definition lastVersionMessage :: string where
  "lastVersionMessage = ''Kann letzte Version nicht l'' @ [CHR 0xF6] @ ''schen''"

definition deleteVersion :: "string \<Rightarrow> string \<Rightarrow> SchemaStoreState \<Rightarrow> SchemaStoreState" where
  "deleteVersion ctx ver s =
     (case map_of (contextManifests s) ctx of
        None \<Rightarrow> s
      | Some manifest \<Rightarrow>
          (let remainingVersions = obj_rest ver (versions manifest)
           in if length (obj_keys remainingVersions) = 0
              then s\<lparr>error := Some lastVersionMessage\<rparr>
              else markUnsaved
                     (s\<lparr>contextManifests :=
                          AList.update ctx (manifest\<lparr>versions := remainingVersions\<rparr>)
                            (contextManifests s)\<rparr>)))"

subsection \<open>Fields and groups\<close>

definition moveField ::
  "string \<Rightarrow> string \<Rightarrow> int \<Rightarrow> SchemaStoreState \<Rightarrow> SchemaStoreState" where
  "moveField schemaFile fid newIndex s =
     (let key = cacheKey (activeContext s) (activeVersion s) schemaFile
      in case map_of (schemas s) key of
           None \<Rightarrow> s
         | Some schema \<Rightarrow>
             (case findIndex (\<lambda>f. field_id f = fid) (schema_fields schema) of
                None \<Rightarrow> s
              | Some currentIndex \<Rightarrow>
                  (let field = schema_fields schema ! currentIndex;
                       removed = splice_remove currentIndex (schema_fields schema);
                       moved = splice_insert newIndex field removed;
                       updatedSchema = schema\<lparr>schema_fields := moved\<rparr>
                   in markUnsaved (s\<lparr>schemas := AList.update key updatedSchema (schemas s)\<rparr>))))"

definition deleteGroup :: "string \<Rightarrow> string \<Rightarrow> SchemaStoreState \<Rightarrow> SchemaStoreState" where
  "deleteGroup schemaFile groupId s =
     (let key = cacheKey (activeContext s) (activeVersion s) schemaFile
      in case map_of (schemas s) key of
           None \<Rightarrow> s
         | Some schema \<Rightarrow>
             (let updatedGroups = filter (\<lambda>g. group_id g \<noteq> groupId) (groups schema);
                  updatedFields =
                    map (\<lambda>f. if field_group f = Some groupId
                              then f\<lparr>field_group := None\<rparr> else f)
                      (schema_fields schema);
                  updatedSchema =
                    schema\<lparr>groups := updatedGroups, schema_fields := updatedFields\<rparr>
              in markUnsaved (s\<lparr>schemas := AList.update key updatedSchema (schemas s)\<rparr>)))"

subsection \<open>Content types\<close>

definition getContentTypes :: "SchemaStoreState \<Rightarrow> ContentType list" where
  "getContentTypes s =
     (case map_of (schemas s) (cacheKey (activeContext s) (activeVersion s) ''core.json'') of
        None \<Rightarrow> []
      | Some schema \<Rightarrow>
          (case find (\<lambda>f. field_id f = ''ccm:oeh_flex_lrt'') (schema_fields schema) of
             None \<Rightarrow> []
           | Some field \<Rightarrow>
               (case vocabulary (system field) of
                  None \<Rightarrow> []
                | Some vocab \<Rightarrow>
                    map (\<lambda>c. \<lparr> ct_label = concept_label c,
                               ct_icon = or_else (icon c) ''article'',
                               ct_schema_file = the (schema_file c) \<rparr>)
                      (filter (\<lambda>c. truthy (schema_file c)) (concepts vocab)))))"

subsection \<open>The document store behind \<^verbatim>\<open>fetch\<close>\<close>







subsection \<open>Archive codec\<close>

text \<open>
  JSZip is a library the store calls; the archive is modelled as JSZip's table of file
  entries, from entry name to content, which \<^verbatim>\<open>generateAsync\<close> followed by \<^verbatim>\<open>loadAsync\<close>
  hands over unchanged. The content of an entry is a text, named by what \<^verbatim>\<open>JSON.parse\<close>
  yields for it: one of the store's documents, JSON of none of their shapes (neither a
  \<^verbatim>\<open>contexts\<close> nor a \<^verbatim>\<open>versions\<close> property), or an exception. The text that
  \<^verbatim>\<open>JSON.stringify\<close> writes for a schema document parses to the \<open>schema_copy\<close> of the
  document; registry and manifest hold strings, booleans and lists of them only and parse
  to themselves.

  \<^verbatim>\<open>zip.folder(name)\<close> answers the archive itself for an empty name and otherwise the folder
  whose root is the name with one slash at its end; \<^verbatim>\<open>folder.file(name, text)\<close> writes the
  entry \<open>folder @ name\<close> and \<^verbatim>\<open>zip.file(name)\<close> looks the entry up.
\<close>

datatype zip_entry =
    NotJson
  | OtherJson
  | RegistryJson ContextRegistry
  | ManifestJson ContextManifest
  | SchemaJson SchemaDefinition

type_synonym archive = "(string \<times> zip_entry) list"

datatype upload = NotAZip | ZipArchive archive







text \<open>
  The loops of \<^verbatim>\<open>importFromZip\<close>. \<open>None\<close> is an exception: \<^verbatim>\<open>JSON.parse\<close> rejecting the
  text, or \<^verbatim>\<open>Object.entries\<close> of the \<^verbatim>\<open>versions\<close> that a document of another shape does
  not have. A schema entry is stored as it parses; JSON of another shape there is no
  \<^verbatim>\<open>SchemaDefinition\<close>, and the flag records that the new schema map left the typed model.
\<close>

fun importSchemaFiles ::
  "archive \<Rightarrow> string \<Rightarrow> string \<Rightarrow> string \<Rightarrow> string list
     \<Rightarrow> (string \<times> SchemaDefinition) list \<times> bool
     \<Rightarrow> ((string \<times> SchemaDefinition) list \<times> bool) option" where
  "importSchemaFiles arch contextPath ctx ver [] acc = Some acc"
| "importSchemaFiles arch contextPath ctx ver (schemaFile # rest) (newSchemas, foreign) =
     (case map_of arch (contextPath @ ''/v'' @ ver @ ''/'' @ schemaFile) of
        None \<Rightarrow> importSchemaFiles arch contextPath ctx ver rest (newSchemas, foreign)
      | Some NotJson \<Rightarrow> None
      | Some (SchemaJson schema) \<Rightarrow>
          importSchemaFiles arch contextPath ctx ver rest
            (AList.update (cacheKey ctx ver schemaFile) schema newSchemas, foreign)
      | Some _ \<Rightarrow> importSchemaFiles arch contextPath ctx ver rest (newSchemas, True))"

fun importVersions ::
  "archive \<Rightarrow> string \<Rightarrow> string \<Rightarrow> VersionEntry js_object
     \<Rightarrow> (string \<times> SchemaDefinition) list \<times> bool
     \<Rightarrow> ((string \<times> SchemaDefinition) list \<times> bool) option" where
  "importVersions arch contextPath ctx [] acc = Some acc"
| "importVersions arch contextPath ctx ((ver, versionEntry) # rest) acc =
     (case importSchemaFiles arch contextPath ctx ver (entry_schemas versionEntry) acc of
        None \<Rightarrow> None
      | Some acc' \<Rightarrow> importVersions arch contextPath ctx rest acc')"

fun importContexts ::
  "archive \<Rightarrow> ContextEntry js_object
     \<Rightarrow> (string \<times> ContextManifest) list \<times> (string \<times> SchemaDefinition) list \<times> bool
     \<Rightarrow> ((string \<times> ContextManifest) list \<times> (string \<times> SchemaDefinition) list \<times> bool) option"
  where
  "importContexts arch [] acc = Some acc"
| "importContexts arch ((ctx, contextEntry) # rest) (newManifests, acc) =
     (let contextPath = (if entry_path contextEntry = [] then ctx else entry_path contextEntry)
      in case map_of arch (contextPath @ ''/manifest.json'') of
           None \<Rightarrow> importContexts arch rest (newManifests, acc)
         | Some (ManifestJson manifest) \<Rightarrow>
             (case importVersions arch contextPath ctx (versions manifest) acc of
                None \<Rightarrow> None
              | Some acc' \<Rightarrow>
                  importContexts arch rest (AList.update ctx manifest newManifests, acc'))
         | Some _ \<Rightarrow> None)"

text \<open>
  \<^verbatim>\<open>importFromZip\<close> returns its boolean and the store it leaves, or leaves the typed model:
  it committed a schema map that holds a document of another shape.
\<close>

datatype import_result = Returned bool SchemaStoreState | Untyped

definition importFromZip :: "upload \<Rightarrow> SchemaStoreState \<Rightarrow> import_result" where
  "importFromZip f s =
     (case f of
        NotAZip \<Rightarrow> Returned False s
      | ZipArchive arch \<Rightarrow>
          (case map_of arch ''context-registry.json'' of
             None \<Rightarrow> Returned False s
           | Some (RegistryJson registry) \<Rightarrow>
               (case importContexts arch (contexts registry) ([], [], False) of
                  None \<Rightarrow> Returned False s
                | Some (newManifests, newSchemas, foreign) \<Rightarrow>
                    if foreign then Untyped
                    else Returned True
                           (markUnsaved
                              (s\<lparr>contextRegistry := Some registry,
                                 contextManifests := newManifests,
                                 schemas := newSchemas\<rparr>)))
           | Some _ \<Rightarrow> Returned False s))"

subsection \<open>JSON document import\<close>

text \<open>
  The value that \<^verbatim>\<open>JSON.parse(jsonData)\<close> yields in \<^verbatim>\<open>importData\<close>, described as far as
  \<^verbatim>\<open>importData\<close> looks at it.
  \<^item> The value of a property that is tested for truthiness is a \<open>slot\<close>: falsy (the
    property is absent, or \<^verbatim>\<open>null\<close>, \<^verbatim>\<open>false\<close>, \<^verbatim>\<open>0\<close> or the empty string), a value of the
    shape that the store declares for it, or another truthy value.
  \<^item> A value that is handed to \<^verbatim>\<open>Object.entries\<close> is the list of entries that this yields
    (none for a number or a boolean, the characters for a string), or \<^verbatim>\<open>null\<close>, for which
    \<^verbatim>\<open>Object.entries\<close> throws.
  \<^item> The value of a context is \<^verbatim>\<open>null\<close>, for which reading a property throws, or any other
    value, with its properties \<^verbatim>\<open>'manifest.json'\<close> and \<^verbatim>\<open>versions\<close>.
  \<^item> The document is a text that \<^verbatim>\<open>JSON.parse\<close> rejects, \<^verbatim>\<open>null\<close>, or any other value, with its
    properties \<^verbatim>\<open>'context-registry.json'\<close> and \<^verbatim>\<open>contexts\<close>.
\<close>

datatype 'a slot = Falsy | Shaped 'a | Foreign

datatype file_table = NullTable | FileTable "(string \<times> SchemaDefinition slot) list"

datatype context_json =
    NullContext
  | ContextValue "ContextManifest slot" "(string \<times> file_table) list option"

datatype import_document =
    NotJsonText
  | NullDocument
  | JsonDocument "ContextRegistry slot" "(string \<times> context_json) list option"

text \<open>
  While \<^verbatim>\<open>importData\<close> runs, its two maps hold whatever the document holds. \<open>loose\<close> is a
  map of the store as such a map, and \<open>typed\<close> is the way back, for a map whose values all
  have the declared shape.
\<close>

definition loose :: "(string \<times> 'a) list \<Rightarrow> (string \<times> 'a slot) list" where
  "loose m = map (\<lambda>(k, v). (k, Shaped v)) m"

definition typed :: "(string \<times> 'a slot) list \<Rightarrow> (string \<times> 'a) list option" where
  "typed m = those (map (\<lambda>(k, v). case v of Shaped x \<Rightarrow> Some (k, x) | _ \<Rightarrow> None) m)"

text \<open>The loops of \<^verbatim>\<open>importData\<close>; \<open>None\<close> is an exception.\<close>

fun importVersionTables ::
  "string \<Rightarrow> (string \<times> file_table) list \<Rightarrow> (string \<times> SchemaDefinition slot) list
     \<Rightarrow> (string \<times> SchemaDefinition slot) list option" where
  "importVersionTables ctx [] newSchemas = Some newSchemas"
| "importVersionTables ctx ((ver, table) # rest) newSchemas =
     (case table of
        NullTable \<Rightarrow> None
      | FileTable files \<Rightarrow>
          importVersionTables ctx rest
            (fold (\<lambda>(schemaFile, schema). AList.update (cacheKey ctx ver schemaFile) schema)
               files newSchemas))"

fun importContextData ::
  "(string \<times> context_json) list
     \<Rightarrow> (string \<times> ContextManifest slot) list \<times> (string \<times> SchemaDefinition slot) list
     \<Rightarrow> ((string \<times> ContextManifest slot) list \<times> (string \<times> SchemaDefinition slot) list) option"
  where
  "importContextData [] acc = Some acc"
| "importContextData ((ctx, contextData) # rest) (newManifests, newSchemas) =
     (case contextData of
        NullContext \<Rightarrow> None
      | ContextValue manifest vs \<Rightarrow>
          (let newManifests1 =
                 (if manifest = Falsy then newManifests
                  else AList.update ctx manifest newManifests)
           in case vs of
                None \<Rightarrow> importContextData rest (newManifests1, newSchemas)
              | Some tables \<Rightarrow>
                  (case importVersionTables ctx tables newSchemas of
                     None \<Rightarrow> None
                   | Some newSchemas1 \<Rightarrow>
                       importContextData rest (newManifests1, newSchemas1))))"

text \<open>
  \<^verbatim>\<open>importData\<close> returns its boolean and the store it leaves, or its boolean alone where
  the store holds a value of another shape than the declared one afterwards. The registry
  is set before the loops run, the maps after them.
\<close>

datatype data_import = Imported bool SchemaStoreState | ImportedForeign bool

definition importData :: "import_document \<Rightarrow> SchemaStoreState \<Rightarrow> data_import" where
  "importData doc s =
     (case doc of
        NotJsonText \<Rightarrow> Imported False s
      | NullDocument \<Rightarrow> Imported False s
      | JsonDocument registry ctxs \<Rightarrow>
          if registry = Falsy \<and> ctxs = None then Imported False s
          else
            (let s1 = (case registry of
                         Shaped r \<Rightarrow> s\<lparr>contextRegistry := Some r\<rparr>
                       | _ \<Rightarrow> s)
             in case ctxs of
                  None \<Rightarrow>
                    if registry = Foreign then ImportedForeign True
                    else Imported True (markUnsaved s1)
                | Some cs \<Rightarrow>
                    (case importContextData cs
                            (loose (contextManifests s1), loose (schemas s1)) of
                       None \<Rightarrow>
                         if registry = Foreign then ImportedForeign False
                         else Imported False s1
                     | Some (newManifests, newSchemas) \<Rightarrow>
                         (case (registry, typed newManifests, typed newSchemas) of
                            (Foreign, _, _) \<Rightarrow> ImportedForeign True
                          | (_, Some manifests, Some cache) \<Rightarrow>
                              Imported True
                                (markUnsaved
                                   (s1\<lparr>contextManifests := manifests, schemas := cache\<rparr>))
                          | _ \<Rightarrow> ImportedForeign True))))"

section \<open>The copy loop of createVersion on objects\<close>

text \<open>
  In the store the schema map holds references to objects. An object holds its properties,
  an array its elements, and each of them is a primitive value or a reference to another
  object or array. To follow which objects an assignment reaches, the heap is the list of
  the objects and arrays allocated so far, and a reference is an index into it. A property
  whose value is \<^verbatim>\<open>undefined\<close> is left out, as \<^verbatim>\<open>JSON.stringify\<close> leaves it out.
\<close>

datatype jsval = VNull | VBool bool | VNum number | VStr string | VRef nat

datatype cell = ObjectCell "(string \<times> jsval) list" | ArrayCell "jsval list"

type_synonym heap = "cell list"

text \<open>
  The JSON value under a value of the heap, followed through at most \<open>n\<close> nested objects.
  A path through more objects than the heap holds passes through one of them twice, so
  with one step for each object of the heap the result \<open>None\<close> stands for a circular
  structure (or a reference to no object).
\<close>

fun tree_of :: "nat \<Rightarrow> heap \<Rightarrow> jsval \<Rightarrow> json option" where
  "tree_of n h VNull = Some JNull"
| "tree_of n h (VBool b) = Some (JBool b)"
| "tree_of n h (VNum x) = Some (JNum x)"
| "tree_of n h (VStr s) = Some (JStr s)"
| "tree_of 0 h (VRef r) = None"
| "tree_of (Suc n) h (VRef r) =
     (if r < length h
      then (case h ! r of
              ObjectCell ps \<Rightarrow>
                map_option JObj
                  (those (map (\<lambda>(k, v). map_option (Pair k) (tree_of n h v)) ps))
            | ArrayCell vs \<Rightarrow> map_option JArr (those (map (tree_of n h) vs)))
      else None)"

definition json_of :: "heap \<Rightarrow> jsval \<Rightarrow> json option" where
  "json_of h v = tree_of (length h) h v"

text \<open>
  \<^verbatim>\<open>JSON.stringify(v)\<close> throws a \<^verbatim>\<open>TypeError\<close> for a circular structure. Its text is named by
  the JSON value that \<^verbatim>\<open>JSON.parse\<close> yields for it, the \<open>json_copy\<close> of the value under \<open>v\<close>.
\<close>

definition JSON_stringify :: "heap \<Rightarrow> jsval \<Rightarrow> json option" where
  "JSON_stringify h v = map_option json_copy (json_of h v)"

text \<open>
  \<^verbatim>\<open>JSON.parse(text)\<close> allocates a new object for every object and a new array for every
  array of the text.
\<close>

fun alloc :: "json \<Rightarrow> heap \<Rightarrow> jsval \<times> heap"
  and alloc_list :: "json list \<Rightarrow> heap \<Rightarrow> jsval list \<times> heap"
  and alloc_props :: "(string \<times> json) list \<Rightarrow> heap \<Rightarrow> (string \<times> jsval) list \<times> heap"
where
  "alloc JNull h = (VNull, h)"
| "alloc (JBool b) h = (VBool b, h)"
| "alloc (JNum x) h = (VNum x, h)"
| "alloc (JStr s) h = (VStr s, h)"
| "alloc (JArr xs) h =
     (case alloc_list xs h of (vs, h1) \<Rightarrow> (VRef (length h1), h1 @ [ArrayCell vs]))"
| "alloc (JObj ps) h =
     (case alloc_props ps h of (qs, h1) \<Rightarrow> (VRef (length h1), h1 @ [ObjectCell qs]))"
| "alloc_list [] h = ([], h)"
| "alloc_list (x # xs) h =
     (case alloc x h of (v, h1) \<Rightarrow>
        (case alloc_list xs h1 of (vs, h2) \<Rightarrow> (v # vs, h2)))"
| "alloc_props [] h = ([], h)"
| "alloc_props ((k, x) # ps) h =
     (case alloc x h of (v, h1) \<Rightarrow>
        (case alloc_props ps h1 of (qs, h2) \<Rightarrow> ((k, v) # qs, h2)))"

definition JSON_parse :: "json \<Rightarrow> heap \<Rightarrow> jsval \<times> heap" where
  "JSON_parse text h = alloc text h"

text \<open>\<^verbatim>\<open>JSON.parse(JSON.stringify(v))\<close>\<close>

definition json_clone :: "heap \<Rightarrow> jsval \<Rightarrow> (jsval \<times> heap) option" where
  "json_clone h v =
     (case JSON_stringify h v of
        None \<Rightarrow> None
      | Some text \<Rightarrow> Some (JSON_parse text h))"

text \<open>
  \<^verbatim>\<open>obj.k = v\<close> on the object at \<open>r\<close>. The documents of the store are objects; named
  properties of an array are not part of the model.
\<close>

definition assign_property :: "nat \<Rightarrow> string \<Rightarrow> jsval \<Rightarrow> heap \<Rightarrow> heap" where
  "assign_property r k v h =
     (case h ! r of
        ObjectCell ps \<Rightarrow> h[r := ObjectCell (obj_set k v ps)]
      | ArrayCell vs \<Rightarrow> h)"

text \<open>
  The loop \<^verbatim>\<open>baseSchemas.forEach(...)\<close> of \<^verbatim>\<open>createVersion\<close> on the heap and the map of
  references. \<open>None\<close> is the exception of \<^verbatim>\<open>JSON.stringify\<close>; the copy of an object or an array
  is a reference.
\<close>

fun copySchemas_refs ::
  "string \<Rightarrow> string \<Rightarrow> string \<Rightarrow> string list
     \<Rightarrow> heap \<times> (string \<times> nat) list \<Rightarrow> (heap \<times> (string \<times> nat) list) option" where
  "copySchemas_refs ctx baseVersion ver [] st = Some st"
| "copySchemas_refs ctx baseVersion ver (schemaFile # rest) (h, refs) =
     (case map_of refs (cacheKey ctx baseVersion schemaFile) of
        None \<Rightarrow> copySchemas_refs ctx baseVersion ver rest (h, refs)
      | Some baseSchema \<Rightarrow>
          (case json_clone h (VRef baseSchema) of
             Some (VRef newSchema, h1) \<Rightarrow>
               copySchemas_refs ctx baseVersion ver rest
                 (assign_property newSchema ''version'' (VStr ver) h1,
                  AList.update (cacheKey ctx ver schemaFile) newSchema refs)
           | _ \<Rightarrow> None))"

text \<open>
  A heap and a map of references hold a schema map when they hold, key by key, an object
  with the JSON value of the document.
\<close>

definition stores ::
  "heap \<Rightarrow> (string \<times> nat) list \<Rightarrow> (string \<times> SchemaDefinition) list \<Rightarrow> bool" where
  "stores h refs cache \<longleftrightarrow>
     list_all2 (\<lambda>(k, r) (k', D). k = k' \<and> json_of h (VRef r) = Some (json_of_schema D))
       refs cache"

section \<open>The claims' words as definitions\<close>

subsection \<open>Content types and cursors\<close>

text \<open>
  A concept contributes a content type exactly when it has a non-empty \<^verbatim>\<open>schema_file\<close>;
  the entry takes the concept's label and schema file, and its icon unless the concept
  has none (or an empty one), in which case the icon is \<^verbatim>\<open>"article"\<close>.
\<close>

definition content_type_of :: "VocabularyConcept \<Rightarrow> ContentType option" where
  "content_type_of c =
     (case schema_file c of
        None \<Rightarrow> None
      | Some f \<Rightarrow>
          if f = [] then None
          else Some \<lparr> ct_label = concept_label c,
                      ct_icon = (case icon c of
                                   None \<Rightarrow> ''article''
                                 | Some i \<Rightarrow> if i = [] then ''article'' else i),
                      ct_schema_file = f \<rparr>)"


subsection \<open>Repositories that survive the archive\<close>



definition slash_free :: "string \<Rightarrow> bool" where
  "slash_free x \<longleftrightarrow> CHR ''/'' \<notin> set x"



text \<open>
  A JSON value that \<^verbatim>\<open>JSON.stringify\<close> and \<^verbatim>\<open>JSON.parse\<close> hand over as it is: every number in
  it is finite and not negative zero.
\<close>

fun json_exact :: "json \<Rightarrow> bool" where
  "json_exact JNull \<longleftrightarrow> True"
| "json_exact (JBool b) \<longleftrightarrow> True"
| "json_exact (JNum x) \<longleftrightarrow> (case x of Finite q \<Rightarrow> True | _ \<Rightarrow> False)"
| "json_exact (JStr s) \<longleftrightarrow> True"
| "json_exact (JArr xs) \<longleftrightarrow> list_all json_exact xs"
| "json_exact (JObj ps) \<longleftrightarrow> list_all (\<lambda>(k, v). json_exact v) ps"

subsection \<open>Documents that importData accepts\<close>

text \<open>
  The loops of \<^verbatim>\<open>importData\<close> throw when the value of a context is \<^verbatim>\<open>null\<close> or the value of
  a version under \<^verbatim>\<open>versions\<close> is \<^verbatim>\<open>null\<close>.
\<close>

definition null_version :: "context_json \<Rightarrow> bool" where
  "null_version contextData \<longleftrightarrow>
     (case contextData of
        NullContext \<Rightarrow> False
      | ContextValue manifest vs \<Rightarrow>
          (case vs of
             None \<Rightarrow> False
           | Some tables \<Rightarrow> NullTable \<in> snd ` set tables))"

definition throwing :: "(string \<times> context_json) list \<Rightarrow> bool" where
  "throwing cs \<longleftrightarrow> (\<exists>(ctx, contextData) \<in> set cs. contextData = NullContext \<or> null_version contextData)"

text \<open>
  The manifests and the schema documents of a document, in the order of the document,
  each schema document with its cache key; and the documents all of whose manifests and
  schema documents have the declared shape.
\<close>

definition table_schemas :: "string \<Rightarrow> string \<times> file_table \<Rightarrow> (string \<times> SchemaDefinition slot) list"
  where
  "table_schemas ctx = (\<lambda>(ver, table).
     (case table of
        NullTable \<Rightarrow> []
      | FileTable files \<Rightarrow> map (\<lambda>(schemaFile, schema). (cacheKey ctx ver schemaFile, schema)) files))"

definition context_schemas :: "string \<times> context_json \<Rightarrow> (string \<times> SchemaDefinition slot) list" where
  "context_schemas = (\<lambda>(ctx, contextData).
     (case contextData of
        NullContext \<Rightarrow> []
      | ContextValue manifest vs \<Rightarrow>
          (case vs of
             None \<Rightarrow> []
           | Some tables \<Rightarrow> concat (map (table_schemas ctx) tables))))"

definition context_manifest :: "string \<times> context_json \<Rightarrow> (string \<times> ContextManifest slot) list" where
  "context_manifest = (\<lambda>(ctx, contextData).
     (case contextData of
        NullContext \<Rightarrow> []
      | ContextValue manifest vs \<Rightarrow> if manifest = Falsy then [] else [(ctx, manifest)]))"

definition document_manifests :: "(string \<times> context_json) list \<Rightarrow> (string \<times> ContextManifest slot) list"
  where
  "document_manifests cs = concat (map context_manifest cs)"

definition document_schemas :: "(string \<times> context_json) list \<Rightarrow> (string \<times> SchemaDefinition slot) list"
  where
  "document_schemas cs = concat (map context_schemas cs)"

definition shaped :: "(string \<times> 'a slot) list \<Rightarrow> bool" where
  "shaped entries \<longleftrightarrow> list_all (\<lambda>(k, v). case v of Shaped x \<Rightarrow> True | _ \<Rightarrow> False) entries"

text \<open>The boolean that \<^verbatim>\<open>importData\<close> returns.\<close>

fun import_returned :: "data_import \<Rightarrow> bool" where
  "import_returned (Imported b s) = b"
| "import_returned (ImportedForeign b) = b"

text \<open>
  What a map holds under a key after the entries of a list were set in it one after the
  other: the value of the last entry with the key, or what the map held before.
\<close>

definition after_setting :: "(string \<times> 'a) list \<Rightarrow> (string \<times> 'a) list \<Rightarrow> string \<Rightarrow> 'a option" where
  "after_setting m entries k =
     (case map_of (rev entries) k of
        None \<Rightarrow> map_of m k
      | Some v \<Rightarrow> Some v)"

section \<open>Vocabulary of the heap proofs\<close>

text \<open>The JSON value of an object after \<^verbatim>\<open>obj.k = x\<close>.\<close>

fun with_property :: "string \<Rightarrow> json \<Rightarrow> json \<Rightarrow> json" where
  "with_property k x (JObj ps) = JObj (obj_set k x ps)"
| "with_property k x j = j"

text \<open>
  The object at \<open>r\<close> reads from \<open>lo\<close> when it lies at or above \<open>lo\<close> and its JSON value is
  the same in every heap that agrees with \<open>h\<close> from \<open>lo\<close> on. The invariant of the copy
  loop: the heap extends the heap \<open>h0\<close> it started from, and every reference of the map
  is one that the map held at the start, readable in \<open>h0\<close>, or reads from the end of \<open>h0\<close>.
\<close>

definition reads_from :: "nat \<Rightarrow> heap \<Rightarrow> nat \<Rightarrow> bool" where
  "reads_from lo h r \<longleftrightarrow>
     lo \<le> r \<and> r < length h
     \<and> (\<exists>t n. n \<le> length h
            \<and> (\<forall>H. length h \<le> length H \<and> (\<forall>i. lo \<le> i \<and> i < length h \<longrightarrow> H ! i = h ! i)
                  \<longrightarrow> tree_of n H (VRef r) = Some t))"

definition heap_inv ::
  "heap \<Rightarrow> (string \<times> nat) list \<Rightarrow> heap \<Rightarrow> (string \<times> nat) list \<Rightarrow> bool" where
  "heap_inv h0 refs0 h refs \<longleftrightarrow>
     length h0 \<le> length h \<and> (\<forall>i < length h0. h ! i = h0 ! i)
     \<and> (\<forall>k r. map_of refs k = Some r \<longrightarrow>
           (map_of refs0 k = Some r \<and> json_of h0 (VRef r) \<noteq> None)
           \<or> reads_from (length h0) h r)"

section \<open>Vocabulary of the archive proofs\<close>





section \<open>A small repository\<close>

text \<open>
  One context \<^verbatim>\<open>default\<close> with the version \<^verbatim>\<open>1.8.0\<close> and its \<^verbatim>\<open>core.json\<close>: a title
  field in the group \<^verbatim>\<open>general\<close> and the content-type field, whose vocabulary holds one
  concept with a schema file and one without.
\<close>

definition example_system :: SystemConfig where
  "example_system =
     \<lparr> system_path = ''cclom:title'', system_uri = ''cclom:title'',
       system_datatype = DtString, multiple = False, required = True, ask_user = True,
       ai_fillable = True, repo_field = None, system_index = None, vocabulary = None,
       normalization = None, validation = None, system_items = None \<rparr>"

definition title_field :: SchemaField where
  "title_field =
     \<lparr> field_id = ''cclom:title'', field_group = Some ''general'',
       field_label = Localized ''Titel'' ''Title'', field_description = None,
       examples = None, prompt = None, promptInstructions = None,
       system = example_system \<rparr>"

definition event_concept :: VocabularyConcept where
  "event_concept =
     \<lparr> concept_label = Localized ''Ereignis'' ''Event'', concept_uri = None,
       concept_value = None, concept_description = None, altLabels = None,
       icon = Some ''event'', schema_file = Some ''event.json'', broader = None,
       narrower = None \<rparr>"

definition plain_concept :: VocabularyConcept where
  "plain_concept =
     \<lparr> concept_label = Localized ''x'' ''x'', concept_uri = None,
       concept_value = None, concept_description = None, altLabels = None,
       icon = None, schema_file = None, broader = None, narrower = None \<rparr>"

definition content_type_field :: SchemaField where
  "content_type_field =
     \<lparr> field_id = ''ccm:oeh_flex_lrt'', field_group = Some ''general'',
       field_label = Localized ''Inhaltsart'' ''Content type'', field_description = None,
       examples = None, prompt = None, promptInstructions = None,
       system = example_system
         \<lparr> system_path := ''ccm:oeh_flex_lrt'', system_uri := ''ccm:oeh_flex_lrt'',
           vocabulary := Some
             \<lparr> vocabulary_type = Closed, scheme = None, hierarchical = None,
               concepts = [event_concept, plain_concept], skohubUrl = None \<rparr> \<rparr> \<rparr>"

definition general_group :: SchemaGroup where
  "general_group =
     \<lparr> group_id = ''general'', group_label = Localized ''Allgemein'' ''General'',
       group_description = None, group_order = None \<rparr>"

definition core_schema :: SchemaDefinition where
  "core_schema =
     \<lparr> profileId = ''core:descriptive'', version = ''1.8.0'', jsonld_context = None,
       groups = [general_group], schema_fields = [title_field, content_type_field],
       output_template = None \<rparr>"

definition default_manifest :: ContextManifest where
  "default_manifest =
     \<lparr> contextName = ''default'', manifest_name = ''Default'', manifest_basedOn = None,
       versions =
         [(''1.8.0'',
           \<lparr> releaseDate = ''2024-01-01'', isDefault = Some True,
             entry_schemas = [''core.json''], changelog = None \<rparr>)] \<rparr>"

definition example_registry :: ContextRegistry where
  "example_registry =
     \<lparr> contexts =
         [(''default'',
           \<lparr> entry_name = ''Default'', entry_description = None,
             defaultVersion = ''1.8.0'', entry_path = ''default'',
             entry_basedOn = None \<rparr>)],
       defaultContext = ''default'' \<rparr>"

definition example_store :: SchemaStoreState where
  "example_store =
     initialState
       \<lparr> contextRegistry := Some example_registry,
         contextManifests := [(''default'', default_manifest)],
         schemas := [(''default@1.8.0/core.json'', core_schema)],
         activeSchemaFile := Some ''core.json'',
         activeFieldId := Some ''cclom:title'' \<rparr>"


text \<open>
  Documents for \<^verbatim>\<open>importData\<close>: the repository under the key \<^verbatim>\<open>contexts\<close> alone, which is
  \<^verbatim>\<open>{"contexts": {"default": {"manifest.json": ..., "versions": {"1.8.0": {"core.json": ...}}}}}\<close>,
  and a context whose value is \<^verbatim>\<open>null\<close>, which is \<^verbatim>\<open>{"contexts": {"default": null}}\<close>.
  After them, an archive whose one schema entry is not JSON.
\<close>

definition default_context_data :: context_json where
  "default_context_data =
     ContextValue (Shaped default_manifest)
       (Some [(''1.8.0'', FileTable [(''core.json'', Shaped core_schema)])])"

definition contexts_only_document :: import_document where
  "contexts_only_document = JsonDocument Falsy (Some [(''default'', default_context_data)])"

definition null_context_document :: import_document where
  "null_context_document = JsonDocument Falsy (Some [(''default'', NullContext)])"

definition broken_archive :: archive where
  "broken_archive =
     [(''context-registry.json'', RegistryJson example_registry),
      (''default/manifest.json'', ManifestJson default_manifest),
      (''default/v1.8.0/core.json'', NotJson)]"



text \<open>
  The repository with a \<^verbatim>\<open>core.json\<close> whose title field has the validation
  \<^verbatim>\<open>{"maxLength": 1e400}\<close>, which \<^verbatim>\<open>JSON.parse\<close> reads as \<^verbatim>\<open>Infinity\<close>; and the same document
  with \<^verbatim>\<open>null\<close> in its place.
\<close>

definition unbounded_schema :: SchemaDefinition where
  "unbounded_schema =
     core_schema
       \<lparr>schema_fields :=
          [title_field
             \<lparr>system := example_system
                \<lparr>validation := Some (JObj [(''maxLength'', JNum PositiveInfinity)])\<rparr>\<rparr>,
           content_type_field]\<rparr>"

definition nulled_schema :: SchemaDefinition where
  "nulled_schema =
     core_schema
       \<lparr>schema_fields :=
          [title_field
             \<lparr>system := example_system
                \<lparr>validation := Some (JObj [(''maxLength'', JNull)])\<rparr>\<rparr>,
           content_type_field]\<rparr>"

definition unbounded_store :: SchemaStoreState where
  "unbounded_store =
     example_store\<lparr>schemas := [(''default@1.8.0/core.json'', unbounded_schema)]\<rparr>"








text \<open>
  A schema document with one group and no field, and a heap that holds it: the label, the
  group, the two arrays and the document.
\<close>

definition grouped_schema :: SchemaDefinition where
  "grouped_schema =
     \<lparr> profileId = ''core:descriptive'', version = ''1.8.0'', jsonld_context = None,
       groups = [general_group], schema_fields = [], output_template = None \<rparr>"

definition grouped_store :: SchemaStoreState where
  "grouped_store =
     example_store\<lparr>schemas := [(''default@1.8.0/core.json'', grouped_schema)]\<rparr>"

definition grouped_heap :: heap where
  "grouped_heap =
     [ObjectCell [(''de'', VStr ''Allgemein''), (''en'', VStr ''General'')],
      ObjectCell [(''id'', VStr ''general''), (''label'', VRef 0)],
      ArrayCell [VRef 1],
      ArrayCell [],
      ObjectCell [(''profileId'', VStr ''core:descriptive''), (''version'', VStr ''1.8.0''),
                  (''groups'', VRef 2), (''fields'', VRef 3)]]"

text \<open>
  A repository whose version \<^verbatim>\<open>2/x\<close> lists the files \<^verbatim>\<open>x/core.json\<close> and \<^verbatim>\<open>core.json\<close>:
  the cache key of \<^verbatim>\<open>x/core.json\<close> in a version \<^verbatim>\<open>2\<close> is the cache key of \<^verbatim>\<open>core.json\<close> in
  the version \<^verbatim>\<open>2/x\<close>.
\<close>

definition nested_manifest :: ContextManifest where
  "nested_manifest =
     default_manifest
       \<lparr> versions :=
           [(''2/x'',
             \<lparr> releaseDate = ''2024-01-01'', isDefault = Some True,
               entry_schemas = [''x/core.json'', ''core.json''], changelog = None \<rparr>)] \<rparr>"

definition nested_store :: SchemaStoreState where
  "nested_store =
     initialState
       \<lparr> contextRegistry := Some example_registry,
         contextManifests := [(''default'', nested_manifest)],
         schemas := [(''default@2/x/x/core.json'', core_schema\<lparr>profileId := ''type:event''\<rparr>),
                     (''default@2/x/core.json'', core_schema)],
         activeVersion := ''2/x'' \<rparr>"

section \<open>Auxiliary facts\<close>

lemma findIndex_Some:
  "findIndex p xs = Some i \<Longrightarrow> i < length xs \<and> p (xs ! i)"
  by (induction xs arbitrary: i) (auto split: if_splits)

lemma findIndex_None: "findIndex p xs = None \<longleftrightarrow> (\<forall>x \<in> set xs. \<not> p x)"
  by (induction xs) auto

lemma mset_splice_remove:
  "i < length xs \<Longrightarrow> mset (splice_remove i xs) + {#xs ! i#} = mset xs"
proof -
  assume "i < length xs"
  then have "xs = take i xs @ xs ! i # drop (Suc i) xs"
    by (simp add: id_take_nth_drop)
  then have "mset xs = mset (take i xs) + {#xs ! i#} + mset (drop (Suc i) xs)"
    by (metis mset.simps(2) mset_append union_mset_add_mset_right add_mset_add_single union_assoc union_commute)
  then show ?thesis by (simp add: splice_remove_def)
qed

lemma mset_splice_insert: "mset (splice_insert k x xs) = mset xs + {#x#}"
proof -
  have "mset (take n xs @ x # drop n xs) = mset xs + {#x#}" for n
    by (metis append_take_drop_id mset.simps(2) mset_append union_mset_add_mset_right add_mset_add_single)
  then show ?thesis by (simp add: splice_insert_def Let_def)
qed

section \<open>Protected entities\<close>

text \<open>
  C4. For every prior state, \<^verbatim>\<open>deleteContext("default")\<close> only sets the error message:
  the state it leaves is the prior state with \<open>error\<close> set, so the registry (and with it
  the entry \<^verbatim>\<open>default\<close>) and the manifest map are unchanged. The operation is a total
  function: it does not throw.
\<close>

theorem deleteContext_default_protected:
  "deleteContext ''default'' s = s\<lparr>error := Some ''Cannot delete default context''\<rparr>
   \<and> contextRegistry (deleteContext ''default'' s) = contextRegistry s
   \<and> contextManifests (deleteContext ''default'' s) = contextManifests s
   \<and> error (deleteContext ''default'' s) = Some ''Cannot delete default context''"
  by (simp add: deleteContext_def)

text \<open>
  C5. When the manifest of a context has exactly one version \<open>V\<close>,
  \<^verbatim>\<open>deleteVersion(ctx, V)\<close> only sets the error message: the manifest map is unchanged,
  and the manifest still has its version.
\<close>

theorem deleteVersion_last_version_protected:
  assumes "map_of (contextManifests s) ctx = Some manifest"
    and "obj_keys (versions manifest) = [V]"
  shows "deleteVersion ctx V s = s\<lparr>error := Some lastVersionMessage\<rparr>
         \<and> map_of (contextManifests (deleteVersion ctx V s)) ctx = Some manifest
         \<and> versions manifest \<noteq> []"
proof -
  from assms(2) obtain e where v: "versions manifest = [(V, e)]"
    by (cases "versions manifest") (auto simp: obj_keys_def)
  then have "obj_rest V (versions manifest) = []"
    by (simp add: obj_rest_def)
  with assms(1) v show ?thesis
    by (simp add: deleteVersion_def obj_keys_def)
qed

theorem deleteVersion_last_version_protected_witness:
  "deleteVersion ''default'' ''1.8.0'' example_store
     = example_store\<lparr>error := Some lastVersionMessage\<rparr>
   \<and> map_of (contextManifests (deleteVersion ''default'' ''1.8.0'' example_store)) ''default''
     = Some default_manifest"
  using deleteVersion_last_version_protected
          [of example_store "''default''" default_manifest "''1.8.0''"]
  by (simp add: example_store_def default_manifest_def obj_keys_def)

section \<open>Groups and fields\<close>

text \<open>
  C6. For a cached schema document \<open>D\<close> and a group id \<open>G\<close>, after
  \<^verbatim>\<open>deleteGroup(schemaFile, G)\<close> the cached document has the groups of \<open>D\<close> without those
  with id \<open>G\<close>, no field of it has the group \<open>G\<close>, and its fields are the fields of
  \<open>D\<close>, one for one, each with all its attributes except that a group reference to \<open>G\<close>
  has become \<^verbatim>\<open>undefined\<close>. Nothing else of the document changes.
\<close>

theorem deleteGroup_cleans_references:
  assumes "map_of (schemas s) (cacheKey (activeContext s) (activeVersion s) schemaFile) = Some D"
  shows "\<exists>D'. map_of (schemas (deleteGroup schemaFile G s))
                 (cacheKey (activeContext s) (activeVersion s) schemaFile) = Some D'
          \<and> groups D' = filter (\<lambda>g. group_id g \<noteq> G) (groups D)
          \<and> (\<forall>g \<in> set (groups D'). group_id g \<noteq> G)
          \<and> (\<forall>f \<in> set (schema_fields D'). field_group f \<noteq> Some G)
          \<and> length (schema_fields D') = length (schema_fields D)
          \<and> (\<forall>i < length (schema_fields D).
                schema_fields D' ! i =
                  (schema_fields D ! i)
                    \<lparr>field_group := (if field_group (schema_fields D ! i) = Some G then None
                                     else field_group (schema_fields D ! i))\<rparr>)
          \<and> D' = D\<lparr>groups := groups D', schema_fields := schema_fields D'\<rparr>"
  using assms
  by (auto simp: deleteGroup_def Let_def markUnsaved_def update_conv')

theorem deleteGroup_cleans_references_witness:
  "\<exists>D'. map_of (schemas (deleteGroup ''core.json'' ''general'' example_store))
           ''default@1.8.0/core.json'' = Some D'
     \<and> groups D' = []
     \<and> (\<forall>f \<in> set (schema_fields D'). field_group f \<noteq> Some ''general'')
     \<and> length (schema_fields D') = 2"
proof -
  have key: "cacheKey (activeContext example_store) (activeVersion example_store) ''core.json''
               = ''default@1.8.0/core.json''"
    by (simp add: example_store_def initialState_def cacheKey_def)
  have cached: "map_of (schemas example_store)
                  (cacheKey (activeContext example_store) (activeVersion example_store)
                     ''core.json'') = Some core_schema"
    by (simp add: example_store_def initialState_def cacheKey_def)
  from deleteGroup_cleans_references [OF cached, of "''general''"]
  obtain D' where
    "map_of (schemas (deleteGroup ''core.json'' ''general'' example_store))
       (cacheKey (activeContext example_store) (activeVersion example_store) ''core.json'')
       = Some D'"
    "groups D' = filter (\<lambda>g. group_id g \<noteq> ''general'') (groups core_schema)"
    "\<forall>f \<in> set (schema_fields D'). field_group f \<noteq> Some ''general''"
    "length (schema_fields D') = length (schema_fields core_schema)"
    by blast
  then show ?thesis
    unfolding key by (intro exI [of _ D']) (simp add: core_schema_def general_group_def)
qed

text \<open>
  C10. \<^verbatim>\<open>moveField(schemaFile, fieldId, newIndex)\<close> leaves the state as it is when the
  schema is not cached or no field has the id. Otherwise, for every integer \<open>newIndex\<close>
  (negative, or at or past the end), the cached document afterwards is the document before
  with a fields list that is a permutation of the old one: the same fields with the same
  multiplicities, groups and all other properties unchanged.
\<close>

theorem moveField_permutes_fields:
  "(map_of (schemas s) (cacheKey (activeContext s) (activeVersion s) schemaFile) = None
      \<longrightarrow> moveField schemaFile fid newIndex s = s)
   \<and> (\<forall>D. map_of (schemas s) (cacheKey (activeContext s) (activeVersion s) schemaFile) = Some D
          \<longrightarrow> (if fid \<in> field_id ` set (schema_fields D)
               then \<exists>D'. map_of (schemas (moveField schemaFile fid newIndex s))
                            (cacheKey (activeContext s) (activeVersion s) schemaFile) = Some D'
                      \<and> mset (schema_fields D') = mset (schema_fields D)
                      \<and> D' = D\<lparr>schema_fields := schema_fields D'\<rparr>
               else moveField schemaFile fid newIndex s = s))"
proof (intro conjI allI impI)
  assume "map_of (schemas s) (cacheKey (activeContext s) (activeVersion s) schemaFile) = None"
  then show "moveField schemaFile fid newIndex s = s"
    by (simp add: moveField_def)
next
  fix D
  let ?key = "cacheKey (activeContext s) (activeVersion s) schemaFile"
  assume D: "map_of (schemas s) ?key = Some D"
  show "if fid \<in> field_id ` set (schema_fields D)
        then \<exists>D'. map_of (schemas (moveField schemaFile fid newIndex s)) ?key = Some D'
               \<and> mset (schema_fields D') = mset (schema_fields D)
               \<and> D' = D\<lparr>schema_fields := schema_fields D'\<rparr>
        else moveField schemaFile fid newIndex s = s"
  proof (cases "findIndex (\<lambda>f. field_id f = fid) (schema_fields D)")
    case None
    then have "fid \<notin> field_id ` set (schema_fields D)"
      by (auto simp: findIndex_None)
    with None D show ?thesis by (simp add: moveField_def)
  next
    case (Some i)
    then have i: "i < length (schema_fields D)" "field_id (schema_fields D ! i) = fid"
      using findIndex_Some [of "\<lambda>f. field_id f = fid" "schema_fields D" i] by auto
    then have mem: "fid \<in> field_id ` set (schema_fields D)"
      by (metis image_eqI nth_mem)
    let ?moved = "splice_insert newIndex (schema_fields D ! i) (splice_remove i (schema_fields D))"
    have "mset ?moved = mset (schema_fields D)"
      using mset_splice_remove [OF i(1)] by (simp add: mset_splice_insert)
    moreover have "map_of (schemas (moveField schemaFile fid newIndex s)) ?key
                     = Some (D\<lparr>schema_fields := ?moved\<rparr>)"
      using D Some by (simp add: moveField_def Let_def markUnsaved_def update_conv')
    ultimately show ?thesis using mem by simp
  qed
qed

theorem moveField_permutes_fields_witness:
  "\<exists>D'. map_of (schemas (moveField ''core.json'' ''cclom:title'' (- 5) example_store))
           ''default@1.8.0/core.json'' = Some D'
      \<and> mset (schema_fields D') = {#title_field, content_type_field#}
      \<and> D' = core_schema\<lparr>schema_fields := schema_fields D'\<rparr>"
  using moveField_permutes_fields
          [of example_store "''core.json''" "''cclom:title''" "- 5"]
  by (simp add: example_store_def initialState_def cacheKey_def core_schema_def title_field_def content_type_field_def)

section \<open>Content types\<close>

lemma map_filter_content_types:
  "map (\<lambda>c. \<lparr> ct_label = concept_label c, ct_icon = or_else (icon c) ''article'',
               ct_schema_file = the (schema_file c) \<rparr>)
     (filter (\<lambda>c. truthy (schema_file c)) cs)
   = List.map_filter content_type_of cs"
  by (induction cs)
     (auto simp: List.map_filter_def content_type_of_def truthy_def or_else_def
           split: option.splits)

lemma length_map_filter_content_types:
  "length (List.map_filter content_type_of cs)
     = length (filter (\<lambda>c. truthy (schema_file c)) cs)"
  by (simp flip: map_filter_content_types)

text \<open>
  C8. \<^verbatim>\<open>getContentTypes\<close> is the empty list when \<^verbatim>\<open>core.json\<close> of the active context and
  version is not cached, when no field of it has the id \<^verbatim>\<open>ccm:oeh_flex_lrt\<close>, and when
  the first field with that id has no vocabulary. Otherwise it holds, in the order of the
  concepts of that vocabulary, exactly one entry for every concept with a non-empty
  \<^verbatim>\<open>schema_file\<close> and none for the others; the entry has the concept's label and schema
  file and its icon, or \<^verbatim>\<open>"article"\<close> for a missing (or empty) icon.
\<close>

theorem getContentTypes_projection:
  "(map_of (schemas s) (cacheKey (activeContext s) (activeVersion s) ''core.json'') = None
      \<longrightarrow> getContentTypes s = [])
   \<and> (\<forall>D. map_of (schemas s) (cacheKey (activeContext s) (activeVersion s) ''core.json'')
             = Some D \<longrightarrow>
          (''ccm:oeh_flex_lrt'' \<notin> field_id ` set (schema_fields D)
             \<longrightarrow> getContentTypes s = [])
          \<and> (\<forall>f. find (\<lambda>f. field_id f = ''ccm:oeh_flex_lrt'') (schema_fields D) = Some f
                \<longrightarrow> (case vocabulary (system f) of
                       None \<Rightarrow> getContentTypes s = []
                     | Some v \<Rightarrow>
                         getContentTypes s = List.map_filter content_type_of (concepts v)
                         \<and> length (getContentTypes s)
                             = length (filter (\<lambda>c. truthy (schema_file c)) (concepts v)))))"
proof (intro conjI allI impI)
  assume "map_of (schemas s) (cacheKey (activeContext s) (activeVersion s) ''core.json'') = None"
  then show "getContentTypes s = []" by (simp add: getContentTypes_def)
next
  fix D
  assume D: "map_of (schemas s) (cacheKey (activeContext s) (activeVersion s) ''core.json'')
               = Some D"
    and "''ccm:oeh_flex_lrt'' \<notin> field_id ` set (schema_fields D)"
  then have "find (\<lambda>f. field_id f = ''ccm:oeh_flex_lrt'') (schema_fields D) = None"
    by (force simp: find_None_iff)
  with D show "getContentTypes s = []" by (simp add: getContentTypes_def)
next
  fix D f
  assume D: "map_of (schemas s) (cacheKey (activeContext s) (activeVersion s) ''core.json'')
               = Some D"
    and f: "find (\<lambda>f. field_id f = ''ccm:oeh_flex_lrt'') (schema_fields D) = Some f"
  show "case vocabulary (system f) of
          None \<Rightarrow> getContentTypes s = []
        | Some v \<Rightarrow>
            getContentTypes s = List.map_filter content_type_of (concepts v)
            \<and> length (getContentTypes s)
                = length (filter (\<lambda>c. truthy (schema_file c)) (concepts v))"
  proof (cases "vocabulary (system f)")
    case None
    with D f show ?thesis by (simp add: getContentTypes_def)
  next
    case (Some v)
    with D f have "getContentTypes s = List.map_filter content_type_of (concepts v)"
      by (simp add: getContentTypes_def map_filter_content_types)
    with Some show ?thesis by (simp add: length_map_filter_content_types)
  qed
qed

theorem getContentTypes_projection_witness:
  "getContentTypes example_store =
     [\<lparr> ct_label = Localized ''Ereignis'' ''Event'', ct_icon = ''event'',
        ct_schema_file = ''event.json'' \<rparr>]"
proof -
  have cached: "map_of (schemas example_store)
                  (cacheKey (activeContext example_store) (activeVersion example_store)
                     ''core.json'') = Some core_schema"
    by (simp add: example_store_def initialState_def cacheKey_def)
  have found: "find (\<lambda>f. field_id f = ''ccm:oeh_flex_lrt'') (schema_fields core_schema)
                 = Some content_type_field"
    by (simp add: core_schema_def title_field_def content_type_field_def)
  have voc: "vocabulary (system content_type_field)
               = Some \<lparr> vocabulary_type = Closed, scheme = None, hierarchical = None,
                        concepts = [event_concept, plain_concept], skohubUrl = None \<rparr>"
    by (simp add: content_type_field_def)
  from getContentTypes_projection [of example_store] cached found
  have "case vocabulary (system content_type_field) of
          None \<Rightarrow> getContentTypes example_store = []
        | Some v \<Rightarrow>
            getContentTypes example_store = List.map_filter content_type_of (concepts v)
            \<and> length (getContentTypes example_store)
                = length (filter (\<lambda>c. truthy (schema_file c)) (concepts v))"
    by blast
  then show ?thesis
    by (simp add: voc List.map_filter_def content_type_of_def event_concept_def
          plain_concept_def)
qed

section \<open>Import\<close>

lemma importSchemaFiles_throws:
  "f \<in> set files \<Longrightarrow> map_of arch (cpath @ ''/v'' @ ver @ ''/'' @ f) = Some NotJson \<Longrightarrow>
   importSchemaFiles arch cpath c ver files acc = None"
proof (induction files arbitrary: acc)
  case Nil
  then show ?case by simp
next
  case (Cons g files)
  obtain n fg where acc: "acc = (n, fg)" by (cases acc)
  show ?case
  proof (cases "g = f")
    case True
    with Cons.prems acc show ?thesis by simp
  next
    case False
    with Cons.prems have "f \<in> set files" by simp
    from Cons.IH [OF this Cons.prems(2)] show ?thesis
      unfolding acc by (simp split: option.splits zip_entry.splits)
  qed
qed

lemma importVersions_throws:
  "(ver, ve) \<in> set vs \<Longrightarrow> f \<in> set (entry_schemas ve) \<Longrightarrow>
   map_of arch (cpath @ ''/v'' @ ver @ ''/'' @ f) = Some NotJson \<Longrightarrow>
   importVersions arch cpath c vs acc = None"
proof (induction vs arbitrary: acc)
  case Nil
  then show ?case by simp
next
  case (Cons v vs)
  obtain ver' ve' where v: "v = (ver', ve')" by (cases v)
  show ?case
  proof (cases "v = (ver, ve)")
    case True
    with Cons.prems importSchemaFiles_throws [of f "entry_schemas ve" arch cpath ver c acc]
    show ?thesis by simp
  next
    case False
    with Cons.prems have "(ver, ve) \<in> set vs" by simp
    from Cons.IH [OF this Cons.prems(2,3)] show ?thesis
      unfolding v by (simp split: option.splits)
  qed
qed

lemma importContexts_throws:
  assumes "(ctx, e) \<in> set cs"
    and "cpath = (if entry_path e = [] then ctx else entry_path e)"
    and "(\<exists>x. map_of arch (cpath @ ''/manifest.json'') = Some x \<and> (\<forall>m. x \<noteq> ManifestJson m))
         \<or> (\<exists>m ver ve f. map_of arch (cpath @ ''/manifest.json'') = Some (ManifestJson m)
                \<and> (ver, ve) \<in> set (versions m) \<and> f \<in> set (entry_schemas ve)
                \<and> map_of arch (cpath @ ''/v'' @ ver @ ''/'' @ f) = Some NotJson)"
  shows "importContexts arch cs acc = None"
  using assms(1)
proof (induction cs arbitrary: acc)
  case Nil
  then show ?case by simp
next
  case (Cons c cs)
  obtain ctx' e' where c: "c = (ctx', e')" by (cases c)
  obtain M a where acc: "acc = (M, a)" by (cases acc)
  show ?case
  proof (cases "c = (ctx, e)")
    case True
    from assms(3) show ?thesis
    proof
      assume "\<exists>x. map_of arch (cpath @ ''/manifest.json'') = Some x \<and> (\<forall>m. x \<noteq> ManifestJson m)"
      then obtain x where "map_of arch (cpath @ ''/manifest.json'') = Some x"
        "\<forall>m. x \<noteq> ManifestJson m" by blast
      with True assms(2) show ?thesis
        unfolding acc by (cases x) (simp_all add: Let_def)
    next
      assume "\<exists>m ver ve f. map_of arch (cpath @ ''/manifest.json'') = Some (ManifestJson m)
                \<and> (ver, ve) \<in> set (versions m) \<and> f \<in> set (entry_schemas ve)
                \<and> map_of arch (cpath @ ''/v'' @ ver @ ''/'' @ f) = Some NotJson"
      then obtain m ver ve f where m: "map_of arch (cpath @ ''/manifest.json'') = Some (ManifestJson m)"
        and l: "(ver, ve) \<in> set (versions m)" "f \<in> set (entry_schemas ve)"
          "map_of arch (cpath @ ''/v'' @ ver @ ''/'' @ f) = Some NotJson"
        by blast
      from importVersions_throws [OF l, of ctx a]
      have "importVersions arch cpath ctx (versions m) a = None" .
      with True m assms(2) show ?thesis
        unfolding acc by (simp add: Let_def)
    qed
  next
    case False
    with Cons.prems have "(ctx, e) \<in> set cs" by simp
    from Cons.IH [OF this] show ?thesis
      unfolding c acc
      by (simp add: Let_def split: option.splits zip_entry.splits)
  qed
qed

text \<open>
  C2. \<^verbatim>\<open>importFromZip\<close> returns false and leaves the state as it is when the file is no
  ZIP archive, when the archive has no entry \<^verbatim>\<open>context-registry.json\<close>, when that entry
  does not parse to a registry, and when a step of the loops over contexts, versions and
  schema files throws: the manifest entry of a context of the registry does not parse to
  a manifest, or a schema entry that a manifest lists is not JSON. Whenever it returns
  false the state is the prior state, and a state is committed only together with the
  result true, from loops that ran to their end.
\<close>

theorem importFromZip_atomic:
  "importFromZip NotAZip s = Returned False s
   \<and> (map_of arch ''context-registry.json'' = None
        \<longrightarrow> importFromZip (ZipArchive arch) s = Returned False s)
   \<and> (\<forall>x. map_of arch ''context-registry.json'' = Some x \<and> (\<forall>registry. x \<noteq> RegistryJson registry)
        \<longrightarrow> importFromZip (ZipArchive arch) s = Returned False s)
   \<and> (\<forall>registry. map_of arch ''context-registry.json'' = Some (RegistryJson registry)
          \<and> importContexts arch (contexts registry) ([], [], False) = None
        \<longrightarrow> importFromZip (ZipArchive arch) s = Returned False s)
   \<and> (\<forall>registry ctx e x.
          map_of arch ''context-registry.json'' = Some (RegistryJson registry)
          \<and> (ctx, e) \<in> set (contexts registry)
          \<and> map_of arch ((if entry_path e = [] then ctx else entry_path e) @ ''/manifest.json'')
              = Some x
          \<and> (\<forall>m. x \<noteq> ManifestJson m)
        \<longrightarrow> importFromZip (ZipArchive arch) s = Returned False s)
   \<and> (\<forall>registry ctx e m ver ve f.
          map_of arch ''context-registry.json'' = Some (RegistryJson registry)
          \<and> (ctx, e) \<in> set (contexts registry)
          \<and> map_of arch ((if entry_path e = [] then ctx else entry_path e) @ ''/manifest.json'')
              = Some (ManifestJson m)
          \<and> (ver, ve) \<in> set (versions m) \<and> f \<in> set (entry_schemas ve)
          \<and> map_of arch ((if entry_path e = [] then ctx else entry_path e)
                           @ ''/v'' @ ver @ ''/'' @ f) = Some NotJson
        \<longrightarrow> importFromZip (ZipArchive arch) s = Returned False s)
   \<and> (\<forall>s'. importFromZip f s = Returned False s' \<longrightarrow> s' = s)
   \<and> (\<forall>s'. importFromZip f s = Returned True s' \<longrightarrow>
          (\<exists>a registry newManifests newSchemas.
             f = ZipArchive a
             \<and> map_of a ''context-registry.json'' = Some (RegistryJson registry)
             \<and> importContexts a (contexts registry) ([], [], False)
                 = Some (newManifests, newSchemas, False)
             \<and> s' = markUnsaved (s\<lparr>contextRegistry := Some registry,
                                     contextManifests := newManifests,
                                     schemas := newSchemas\<rparr>)))"
proof (intro conjI allI impI)
  show "importFromZip NotAZip s = Returned False s"
    by (simp add: importFromZip_def)
next
  assume "map_of arch ''context-registry.json'' = None"
  then show "importFromZip (ZipArchive arch) s = Returned False s"
    by (simp add: importFromZip_def)
next
  fix x
  assume "map_of arch ''context-registry.json'' = Some x \<and> (\<forall>registry. x \<noteq> RegistryJson registry)"
  then show "importFromZip (ZipArchive arch) s = Returned False s"
    by (cases x) (simp_all add: importFromZip_def)
next
  fix registry
  assume "map_of arch ''context-registry.json'' = Some (RegistryJson registry)
          \<and> importContexts arch (contexts registry) ([], [], False) = None"
  then show "importFromZip (ZipArchive arch) s = Returned False s"
    by (simp add: importFromZip_def)
next
  fix registry ctx e x
  assume h: "map_of arch ''context-registry.json'' = Some (RegistryJson registry)
          \<and> (ctx, e) \<in> set (contexts registry)
          \<and> map_of arch ((if entry_path e = [] then ctx else entry_path e) @ ''/manifest.json'')
              = Some x
          \<and> (\<forall>m. x \<noteq> ManifestJson m)"
  then have "importContexts arch (contexts registry) ([], [], False) = None"
    by (intro importContexts_throws [OF _ refl]) auto
  with h show "importFromZip (ZipArchive arch) s = Returned False s"
    by (simp add: importFromZip_def)
next
  fix registry ctx e m ver ve f
  assume h: "map_of arch ''context-registry.json'' = Some (RegistryJson registry)
          \<and> (ctx, e) \<in> set (contexts registry)
          \<and> map_of arch ((if entry_path e = [] then ctx else entry_path e) @ ''/manifest.json'')
              = Some (ManifestJson m)
          \<and> (ver, ve) \<in> set (versions m) \<and> f \<in> set (entry_schemas ve)
          \<and> map_of arch ((if entry_path e = [] then ctx else entry_path e)
                           @ ''/v'' @ ver @ ''/'' @ f) = Some NotJson"
  then have "importContexts arch (contexts registry) ([], [], False) = None"
    by (intro importContexts_throws [OF _ refl]) auto
  with h show "importFromZip (ZipArchive arch) s = Returned False s"
    by (simp add: importFromZip_def)
next
  fix s'
  assume "importFromZip f s = Returned False s'"
  then show "s' = s"
    by (auto simp: importFromZip_def
          split: upload.splits option.splits zip_entry.splits prod.splits if_splits)
next
  fix s'
  assume "importFromZip f s = Returned True s'"
  then show "\<exists>a registry newManifests newSchemas.
             f = ZipArchive a
             \<and> map_of a ''context-registry.json'' = Some (RegistryJson registry)
             \<and> importContexts a (contexts registry) ([], [], False)
                 = Some (newManifests, newSchemas, False)
             \<and> s' = markUnsaved (s\<lparr>contextRegistry := Some registry,
                                     contextManifests := newManifests,
                                     schemas := newSchemas\<rparr>)"
    by (auto simp: importFromZip_def
          split: upload.splits option.splits zip_entry.splits prod.splits if_splits)
qed

theorem importFromZip_atomic_witness:
  "importFromZip (ZipArchive [(''default/manifest.json'', ManifestJson default_manifest)])
     example_store = Returned False example_store
   \<and> importFromZip (ZipArchive broken_archive) example_store = Returned False example_store"
proof -
  have 1: "map_of [(''default/manifest.json'', ManifestJson default_manifest)]
             ''context-registry.json'' = None"
    by simp
  have 2: "map_of broken_archive ''context-registry.json'' = Some (RegistryJson example_registry)
           \<and> (''default'', \<lparr> entry_name = ''Default'', entry_description = None,
                              defaultVersion = ''1.8.0'', entry_path = ''default'',
                              entry_basedOn = None \<rparr>) \<in> set (contexts example_registry)
           \<and> map_of broken_archive
                ((if entry_path \<lparr> entry_name = ''Default'', entry_description = None,
                              defaultVersion = ''1.8.0'', entry_path = ''default'',
                              entry_basedOn = None \<rparr> = [] then ''default''
                  else entry_path \<lparr> entry_name = ''Default'', entry_description = None,
                              defaultVersion = ''1.8.0'', entry_path = ''default'',
                              entry_basedOn = None \<rparr>) @ ''/manifest.json'')
               = Some (ManifestJson default_manifest)
           \<and> (''1.8.0'', \<lparr> releaseDate = ''2024-01-01'', isDefault = Some True,
                            entry_schemas = [''core.json''], changelog = None \<rparr>)
               \<in> set (versions default_manifest)
           \<and> ''core.json'' \<in> set (entry_schemas \<lparr> releaseDate = ''2024-01-01'', isDefault = Some True,
                            entry_schemas = [''core.json''], changelog = None \<rparr>)
           \<and> map_of broken_archive
                ((if entry_path \<lparr> entry_name = ''Default'', entry_description = None,
                              defaultVersion = ''1.8.0'', entry_path = ''default'',
                              entry_basedOn = None \<rparr> = [] then ''default''
                  else entry_path \<lparr> entry_name = ''Default'', entry_description = None,
                              defaultVersion = ''1.8.0'', entry_path = ''default'',
                              entry_basedOn = None \<rparr>) @ ''/v'' @ ''1.8.0'' @ ''/'' @ ''core.json'')
               = Some NotJson"
    by (simp add: broken_archive_def example_registry_def default_manifest_def)
  from importFromZip_atomic
         [of example_store "[(''default/manifest.json'', ManifestJson default_manifest)]"] 1
  have a: "importFromZip (ZipArchive [(''default/manifest.json'', ManifestJson default_manifest)])
             example_store = Returned False example_store"
    by blast
  from importFromZip_atomic [of example_store broken_archive] 2
  have "importFromZip (ZipArchive broken_archive) example_store = Returned False example_store"
    by blast
  with a show ?thesis by simp
qed

section \<open>Version copies\<close>

subsection \<open>The copy of a document\<close>

lemma json_copy_idem: "json_copy (json_copy j) = json_copy j"
  by (induction j) (auto split: number.splits)

lemma json_copy_exact: "json_exact j \<Longrightarrow> json_copy j = j"
proof (induction j)
  case (JArr xs)
  then show ?case by (auto simp: list_all_iff intro: map_idI)
next
  case (JObj ps)
  then have "map (\<lambda>(k, v). (k, json_copy v)) ps = ps"
    by (intro map_idI) (auto simp: list_all_iff)
  then show ?case by simp
qed (auto split: number.splits)

lemma option_copy_idem:
  "map_option json_copy (map_option json_copy x) = map_option json_copy x"
  by (cases x) (simp_all add: json_copy_idem)

lemma concept_copy_idem: "concept_copy (concept_copy c) = concept_copy c"
  by (simp add: concept_copy_def option_copy_idem)

lemma vocabulary_copy_idem: "vocabulary_copy (vocabulary_copy v) = vocabulary_copy v"
  by (simp add: vocabulary_copy_def concept_copy_idem)

lemma system_copy_idem: "system_copy (system_copy c) = system_copy c"
  by (cases "vocabulary c") (simp_all add: system_copy_def option_copy_idem vocabulary_copy_idem)

lemma field_copy_idem: "field_copy (field_copy f) = field_copy f"
  by (simp add: field_copy_def option_copy_idem system_copy_idem)

lemma group_copy_idem: "group_copy (group_copy g) = group_copy g"
  by (simp add: group_copy_def option_copy_idem)

lemma schema_copy_idem: "schema_copy (schema_copy D) = schema_copy D"
  by (simp add: schema_copy_def option_copy_idem field_copy_idem group_copy_idem)

lemma schema_copy_version: "schema_copy (D\<lparr>version := v\<rparr>) = (schema_copy D)\<lparr>version := v\<rparr>"
  by (simp add: schema_copy_def)

lemma stamped_copy_idem:
  "(schema_copy ((schema_copy D)\<lparr>version := v\<rparr>))\<lparr>version := v\<rparr> = (schema_copy D)\<lparr>version := v\<rparr>"
  by (simp add: schema_copy_version schema_copy_idem)

subsection \<open>The loop on documents\<close>

lemma slash_split:
  "slash_free p \<Longrightarrow> slash_free q \<Longrightarrow> p @ CHR ''/'' # x = q @ CHR ''/'' # y \<Longrightarrow> p = q \<and> x = y"
proof (induction p arbitrary: q)
  case Nil
  then show ?case by (cases q) (auto simp: slash_free_def)
next
  case (Cons a p)
  then show ?case by (cases q) (auto simp: slash_free_def)
qed

lemma cacheKey_slash_free:
  assumes "slash_free ver" "slash_free base" "cacheKey ctx ver g = cacheKey ctx base f"
  shows "ver = base \<and> g = f"
proof -
  from assms(3) have "ver @ CHR ''/'' # g = base @ CHR ''/'' # f"
    by (simp add: cacheKey_def)
  from slash_split [OF assms(1,2) this] show ?thesis .
qed

lemma cacheKey_inj_file: "cacheKey ctx ver f = cacheKey ctx ver g \<longleftrightarrow> f = g"
  by (simp add: cacheKey_def)

lemma copySchemas_frame:
  "k \<notin> cacheKey ctx ver ` set fs \<Longrightarrow>
   map_of (copySchemas ctx base ver fs c) k = map_of c k"
  by (induction fs arbitrary: c) (auto simp: update_conv' split: option.splits)

lemma copySchemas_written:
  "map_of (copySchemas ctx base ver fs c) k \<noteq> map_of c k \<Longrightarrow>
   k \<in> cacheKey ctx ver ` set fs
   \<and> (\<exists>D'. map_of (copySchemas ctx base ver fs c) k = Some D' \<and> version D' = ver)"
proof (induction fs arbitrary: c)
  case Nil
  then show ?case by simp
next
  case (Cons f fs)
  show ?case
  proof (cases "map_of c (cacheKey ctx base f)")
    case None
    with Cons show ?thesis by auto
  next
    case (Some D)
    let ?c1 = "AList.update (cacheKey ctx ver f) ((schema_copy D)\<lparr>version := ver\<rparr>) c"
    have step: "copySchemas ctx base ver (f # fs) c = copySchemas ctx base ver fs ?c1"
      using Some by simp
    show ?thesis
    proof (cases "map_of (copySchemas ctx base ver fs ?c1) k = map_of ?c1 k")
      case True
      with Cons.prems step have "map_of ?c1 k \<noteq> map_of c k" by simp
      then have "k = cacheKey ctx ver f"
        by (auto simp: update_conv' split: if_splits)
      with True step show ?thesis by (simp add: update_conv')
    next
      case False
      from Cons.IH [OF this] step show ?thesis by auto
    qed
  qed
qed

lemma copySchemas_stamps:
  "f \<in> set fs \<Longrightarrow> map_of c (cacheKey ctx base f) \<noteq> None \<Longrightarrow>
   \<exists>D'. map_of (copySchemas ctx base ver fs c) (cacheKey ctx ver f) = Some D'
        \<and> version D' = ver"
proof (induction fs arbitrary: c)
  case Nil
  then show ?case by simp
next
  case (Cons g fs)
  show ?case
  proof (cases "map_of c (cacheKey ctx base g)")
    case None
    with Cons.prems have "f \<in> set fs" by auto
    from Cons.IH [OF this Cons.prems(2)] None show ?thesis by simp
  next
    case (Some D)
    let ?c1 = "AList.update (cacheKey ctx ver g) ((schema_copy D)\<lparr>version := ver\<rparr>) c"
    have step: "copySchemas ctx base ver (g # fs) c = copySchemas ctx base ver fs ?c1"
      using Some by simp
    have present: "map_of ?c1 (cacheKey ctx base f) \<noteq> None"
      using Cons.prems(2) by (simp add: update_conv')
    show ?thesis
    proof (cases "f \<in> set fs")
      case True
      from Cons.IH [OF True present] step show ?thesis by simp
    next
      case False
      with Cons.prems have "g = f" by simp
      with False have "cacheKey ctx ver f \<notin> cacheKey ctx ver ` set fs"
        by (auto simp: cacheKey_inj_file)
      from copySchemas_frame [OF this] step \<open>g = f\<close> show ?thesis
        by (simp add: update_conv')
    qed
  qed
qed

lemma copySchemas_clone:
  assumes "f \<in> set fs"
    and "map_of c (cacheKey ctx base f) = Some D
         \<or> map_of c (cacheKey ctx base f) = Some ((schema_copy D)\<lparr>version := ver\<rparr>)"
    and "\<forall>g \<in> set fs. cacheKey ctx ver g = cacheKey ctx base f \<longrightarrow> g = f"
  shows "map_of (copySchemas ctx base ver fs c) (cacheKey ctx ver f)
           = Some ((schema_copy D)\<lparr>version := ver\<rparr>)"
  using assms
proof (induction fs arbitrary: c)
  case Nil
  then show ?case by simp
next
  case (Cons g fs)
  let ?D' = "(schema_copy D)\<lparr>version := ver\<rparr>"
  have nocoll: "\<forall>g \<in> set fs. cacheKey ctx ver g = cacheKey ctx base f \<longrightarrow> g = f"
    using Cons.prems(3) by simp
  show ?case
  proof (cases "g = f")
    case True
    let ?c1 = "AList.update (cacheKey ctx ver f) ?D' c"
    have step: "copySchemas ctx base ver (g # fs) c = copySchemas ctx base ver fs ?c1"
      using Cons.prems(2) True by (auto simp: stamped_copy_idem)
    have inv: "map_of ?c1 (cacheKey ctx base f) = Some D
               \<or> map_of ?c1 (cacheKey ctx base f) = Some ?D'"
      using Cons.prems(2) by (auto simp: update_conv')
    show ?thesis
    proof (cases "f \<in> set fs")
      case True
      from Cons.IH [OF True inv nocoll] step show ?thesis by simp
    next
      case False
      then have "cacheKey ctx ver f \<notin> cacheKey ctx ver ` set fs"
        by (auto simp: cacheKey_inj_file)
      from copySchemas_frame [OF this] step show ?thesis
        by (simp add: update_conv')
    qed
  next
    case False
    with Cons.prems(1) have mem: "f \<in> set fs" by simp
    from False Cons.prems(3) have ne: "cacheKey ctx ver g \<noteq> cacheKey ctx base f" by auto
    show ?thesis
    proof (cases "map_of c (cacheKey ctx base g)")
      case None
      with Cons.IH [OF mem Cons.prems(2) nocoll] show ?thesis by simp
    next
      case (Some E)
      let ?c1 = "AList.update (cacheKey ctx ver g) ((schema_copy E)\<lparr>version := ver\<rparr>) c"
      have inv: "map_of ?c1 (cacheKey ctx base f) = Some D
               \<or> map_of ?c1 (cacheKey ctx base f) = Some ?D'"
        using Cons.prems(2) ne by (auto simp: update_conv')
      from Cons.IH [OF mem inv nocoll] Some show ?thesis by simp
    qed
  qed
qed

subsection \<open>The loop on objects\<close>

lemma those_map_cong:
  "those (map f xs) = Some ys \<Longrightarrow> (\<And>x y. x \<in> set xs \<Longrightarrow> f x = Some y \<Longrightarrow> g x = Some y) \<Longrightarrow>
   those (map g xs) = Some ys"
proof (induction xs arbitrary: ys)
  case Nil
  then show ?case by simp
next
  case (Cons x xs)
  then show ?case by (auto split: option.splits)
qed

lemma tree_of_Suc: "tree_of n h v = Some t \<Longrightarrow> tree_of (Suc n) h v = Some t"
proof (induction n arbitrary: v t)
  case 0
  then show ?case by (cases v) auto
next
  case (Suc n)
  show ?case
  proof (cases v)
    case (VRef r)
    with Suc.prems have r: "r < length h" by (auto split: if_splits)
    show ?thesis
    proof (cases "h ! r")
      case (ObjectCell ps)
      with Suc.prems VRef r obtain qs where
        qs: "those (map (\<lambda>(k, v). map_option (Pair k) (tree_of n h v)) ps) = Some qs" "t = JObj qs"
        by auto
      have "those (map (\<lambda>(k, v). map_option (Pair k) (tree_of (Suc n) h v)) ps) = Some qs"
        using qs(1) by (rule those_map_cong) (auto dest: Suc.IH)
      with qs(2) VRef r ObjectCell show ?thesis by simp
    next
      case (ArrayCell vs)
      with Suc.prems VRef r obtain ts where
        ts: "those (map (tree_of n h) vs) = Some ts" "t = JArr ts"
        by auto
      have "those (map (tree_of (Suc n) h) vs) = Some ts"
        using ts(1) by (rule those_map_cong) (auto dest: Suc.IH)
      with ts(2) VRef r ArrayCell show ?thesis by simp
    qed
  qed (use Suc.prems in auto)
qed

lemma tree_of_mono: "tree_of n h v = Some t \<Longrightarrow> n \<le> m \<Longrightarrow> tree_of m h v = Some t"
  by (induction m) (auto simp: le_Suc_eq dest: tree_of_Suc)


lemma tree_of_prefix:
  "tree_of n h v = Some t \<Longrightarrow> length h \<le> length H \<Longrightarrow> \<forall>i < length h. H ! i = h ! i \<Longrightarrow>
   tree_of n H v = Some t"
proof (induction n arbitrary: v t)
  case 0
  then show ?case by (cases v) auto
next
  case (Suc n)
  show ?case
  proof (cases v)
    case (VRef r)
    with Suc.prems have r: "r < length h" by (auto split: if_splits)
    with Suc.prems have rH: "r < length H" "H ! r = h ! r" by auto
    show ?thesis
    proof (cases "h ! r")
      case (ObjectCell ps)
      with Suc.prems(1) VRef r obtain qs where
        qs: "those (map (\<lambda>(k, v). map_option (Pair k) (tree_of n h v)) ps) = Some qs" "t = JObj qs"
        by auto
      have "those (map (\<lambda>(k, v). map_option (Pair k) (tree_of n H v)) ps) = Some qs"
        using qs(1) by (rule those_map_cong) (auto dest: Suc.IH [OF _ Suc.prems(2,3)])
      with qs(2) VRef rH ObjectCell show ?thesis by simp
    next
      case (ArrayCell vs)
      with Suc.prems(1) VRef r obtain ts where
        ts: "those (map (tree_of n h) vs) = Some ts" "t = JArr ts"
        by auto
      have "those (map (tree_of n H) vs) = Some ts"
        using ts(1) by (rule those_map_cong) (auto dest: Suc.IH [OF _ Suc.prems(2,3)])
      with ts(2) VRef rH ArrayCell show ?thesis by simp
    qed
  qed (use Suc.prems in auto)
qed

lemma alloc_reads:
  "alloc t h = (v, h1) \<Longrightarrow>
     (\<exists>new. h1 = h @ new)
     \<and> (\<forall>H. length h1 \<le> length H \<and> (\<forall>i. length h \<le> i \<and> i < length h1 \<longrightarrow> H ! i = h1 ! i)
           \<longrightarrow> tree_of (length h1 - length h) H v = Some t)"
  "alloc_list ts h = (vs, h1) \<Longrightarrow>
     (\<exists>new. h1 = h @ new)
     \<and> (\<forall>H. length h1 \<le> length H \<and> (\<forall>i. length h \<le> i \<and> i < length h1 \<longrightarrow> H ! i = h1 ! i)
           \<longrightarrow> those (map (tree_of (length h1 - length h) H) vs) = Some ts)"
  "alloc_props ps h = (qs, h1) \<Longrightarrow>
     (\<exists>new. h1 = h @ new)
     \<and> (\<forall>H. length h1 \<le> length H \<and> (\<forall>i. length h \<le> i \<and> i < length h1 \<longrightarrow> H ! i = h1 ! i)
           \<longrightarrow> those (map (\<lambda>(k, v). map_option (Pair k) (tree_of (length h1 - length h) H v)) qs)
                 = Some ps)"
proof (induction t h and ts h and ps h arbitrary: v h1 and vs h1 and qs h1
       rule: alloc_alloc_list_alloc_props.induct)
  case (5 xs h)
  obtain vs h2 where a: "alloc_list xs h = (vs, h2)" by (cases "alloc_list xs h")
  with "5.prems" have v: "v = VRef (length h2)" and h1: "h1 = h2 @ [ArrayCell vs]" by auto
  from "5.IH" [OF a] obtain new where new: "h2 = h @ new"
    and rd: "\<And>H. length h2 \<le> length H \<Longrightarrow> (\<forall>i. length h \<le> i \<and> i < length h2 \<longrightarrow> H ! i = h2 ! i)
           \<Longrightarrow> those (map (tree_of (length h2 - length h) H) vs) = Some xs"
    by blast
  have "tree_of (length h1 - length h) H v = Some (JArr xs)"
    if H: "length h1 \<le> length H \<and> (\<forall>i. length h \<le> i \<and> i < length h1 \<longrightarrow> H ! i = h1 ! i)" for H
  proof -
    from H h1 have c: "H ! length h2 = ArrayCell vs" "length h2 < length H"
      using new by (auto simp: nth_append)
    have "those (map (tree_of (length h2 - length h) H) vs) = Some xs"
    proof (rule rd)
      show "length h2 \<le> length H" using c by simp
      show "\<forall>i. length h \<le> i \<and> i < length h2 \<longrightarrow> H ! i = h2 ! i"
        using H h1 by (auto simp: nth_append)
    qed
    moreover have "length h1 - length h = Suc (length h2 - length h)"
      using h1 new by simp
    ultimately show ?thesis using c v by simp
  qed
  with h1 new show ?case by auto
next
  case (6 ps h)
  obtain qs h2 where a: "alloc_props ps h = (qs, h2)" by (cases "alloc_props ps h")
  with "6.prems" have v: "v = VRef (length h2)" and h1: "h1 = h2 @ [ObjectCell qs]" by auto
  from "6.IH" [OF a] obtain new where new: "h2 = h @ new"
    and rd: "\<And>H. length h2 \<le> length H \<Longrightarrow> (\<forall>i. length h \<le> i \<and> i < length h2 \<longrightarrow> H ! i = h2 ! i)
           \<Longrightarrow> those (map (\<lambda>(k, v). map_option (Pair k) (tree_of (length h2 - length h) H v)) qs)
                 = Some ps"
    by blast
  have "tree_of (length h1 - length h) H v = Some (JObj ps)"
    if H: "length h1 \<le> length H \<and> (\<forall>i. length h \<le> i \<and> i < length h1 \<longrightarrow> H ! i = h1 ! i)" for H
  proof -
    from H h1 have c: "H ! length h2 = ObjectCell qs" "length h2 < length H"
      using new by (auto simp: nth_append)
    have "those (map (\<lambda>(k, v). map_option (Pair k) (tree_of (length h2 - length h) H v)) qs)
                 = Some ps"
    proof (rule rd)
      show "length h2 \<le> length H" using c by simp
      show "\<forall>i. length h \<le> i \<and> i < length h2 \<longrightarrow> H ! i = h2 ! i"
        using H h1 by (auto simp: nth_append)
    qed
    moreover have "length h1 - length h = Suc (length h2 - length h)"
      using h1 new by simp
    ultimately show ?thesis using c v by simp
  qed
  with h1 new show ?case by auto
next
  case (8 x xs h)
  obtain v0 h2 where a: "alloc x h = (v0, h2)" by (cases "alloc x h")
  obtain vs0 h3 where b: "alloc_list xs h2 = (vs0, h3)" by (cases "alloc_list xs h2")
  from "8.prems" a b have vs: "vs = v0 # vs0" and h1: "h1 = h3" by auto
  from "8.IH"(1) [OF a] obtain new where new: "h2 = h @ new"
    and rd: "\<And>H. length h2 \<le> length H \<Longrightarrow> (\<forall>i. length h \<le> i \<and> i < length h2 \<longrightarrow> H ! i = h2 ! i)
           \<Longrightarrow> tree_of (length h2 - length h) H v0 = Some x"
    by blast
  from "8.IH"(2) [OF a [symmetric] b] obtain new' where new': "h3 = h2 @ new'"
    and rd': "\<And>H. length h3 \<le> length H \<Longrightarrow> (\<forall>i. length h2 \<le> i \<and> i < length h3 \<longrightarrow> H ! i = h3 ! i)
           \<Longrightarrow> those (map (tree_of (length h3 - length h2) H) vs0) = Some xs"
    by blast
  have "those (map (tree_of (length h1 - length h) H) vs) = Some (x # xs)"
    if H: "length h1 \<le> length H \<and> (\<forall>i. length h \<le> i \<and> i < length h1 \<longrightarrow> H ! i = h1 ! i)" for H
  proof -
    have "tree_of (length h2 - length h) H v0 = Some x"
    proof (rule rd)
      show "length h2 \<le> length H" using H h1 new' by simp
      show "\<forall>i. length h \<le> i \<and> i < length h2 \<longrightarrow> H ! i = h2 ! i"
        using H h1 new' by (auto simp: nth_append)
    qed
    then have 1: "tree_of (length h1 - length h) H v0 = Some x"
      by (rule tree_of_mono) (simp add: h1 new new')
    have "those (map (tree_of (length h3 - length h2) H) vs0) = Some xs"
    proof (rule rd')
      show "length h3 \<le> length H" using H h1 by simp
      show "\<forall>i. length h2 \<le> i \<and> i < length h3 \<longrightarrow> H ! i = h3 ! i"
        using H h1 new by auto
    qed
    then have 2: "those (map (tree_of (length h1 - length h) H) vs0) = Some xs"
      by (rule those_map_cong) (auto elim!: tree_of_mono simp: h1 new new')
    from 1 2 show ?thesis by (simp add: vs)
  qed
  with h1 new new' show ?case by auto
next
  case (10 k x ps h)
  obtain v0 h2 where a: "alloc x h = (v0, h2)" by (cases "alloc x h")
  obtain qs0 h3 where b: "alloc_props ps h2 = (qs0, h3)" by (cases "alloc_props ps h2")
  from "10.prems" a b have qs: "qs = (k, v0) # qs0" and h1: "h1 = h3" by auto
  from "10.IH"(1) [OF a] obtain new where new: "h2 = h @ new"
    and rd: "\<And>H. length h2 \<le> length H \<Longrightarrow> (\<forall>i. length h \<le> i \<and> i < length h2 \<longrightarrow> H ! i = h2 ! i)
           \<Longrightarrow> tree_of (length h2 - length h) H v0 = Some x"
    by blast
  from "10.IH"(2) [OF a [symmetric] b] obtain new' where new': "h3 = h2 @ new'"
    and rd': "\<And>H. length h3 \<le> length H \<Longrightarrow> (\<forall>i. length h2 \<le> i \<and> i < length h3 \<longrightarrow> H ! i = h3 ! i)
           \<Longrightarrow> those (map (\<lambda>(k, v). map_option (Pair k) (tree_of (length h3 - length h2) H v)) qs0)
                 = Some ps"
    by blast
  have "those (map (\<lambda>(k, v). map_option (Pair k) (tree_of (length h1 - length h) H v)) qs)
          = Some ((k, x) # ps)"
    if H: "length h1 \<le> length H \<and> (\<forall>i. length h \<le> i \<and> i < length h1 \<longrightarrow> H ! i = h1 ! i)" for H
  proof -
    have "tree_of (length h2 - length h) H v0 = Some x"
    proof (rule rd)
      show "length h2 \<le> length H" using H h1 new' by simp
      show "\<forall>i. length h \<le> i \<and> i < length h2 \<longrightarrow> H ! i = h2 ! i"
        using H h1 new' by (auto simp: nth_append)
    qed
    then have 1: "tree_of (length h1 - length h) H v0 = Some x"
      by (rule tree_of_mono) (simp add: h1 new new')
    have "those (map (\<lambda>(k, v). map_option (Pair k) (tree_of (length h3 - length h2) H v)) qs0)
                 = Some ps"
    proof (rule rd')
      show "length h3 \<le> length H" using H h1 by simp
      show "\<forall>i. length h2 \<le> i \<and> i < length h3 \<longrightarrow> H ! i = h3 ! i"
        using H h1 new by auto
    qed
    then have 2: "those (map (\<lambda>(k, v). map_option (Pair k) (tree_of (length h1 - length h) H v)) qs0)
                 = Some ps"
      by (rule those_map_cong) (auto elim!: tree_of_mono simp: h1 new new')
    from 1 2 show ?thesis by (simp add: qs)
  qed
  with h1 new new' show ?case by auto
qed auto


lemma props_keys:
  "those (map (\<lambda>(k, v). map_option (Pair k) (f v)) qs) = Some ps \<Longrightarrow> map fst ps = map fst qs"
  by (induction qs arbitrary: ps) (auto split: option.splits)

lemma props_update:
  "those (map (\<lambda>(k, v). map_option (Pair k) (f v)) qs) = Some ps \<Longrightarrow> f w = Some t \<Longrightarrow>
   those (map (\<lambda>(k, v). map_option (Pair k) (f v)) (AList.update key w qs))
     = Some (AList.update key t ps)"
  by (induction qs arbitrary: ps) (auto split: option.splits)

lemma props_insert:
  "those (map (\<lambda>(k, v). map_option (Pair k) (f v)) qs) = Some ps \<Longrightarrow> f w = Some t \<Longrightarrow>
   those (map (\<lambda>(k, v). map_option (Pair k) (f v)) (insert_index_key key w qs))
     = Some (insert_index_key key t ps)"
  by (induction qs arbitrary: ps) (auto split: option.splits)

lemma props_append:
  "those (map (\<lambda>(k, v). map_option (Pair k) (f v)) qs) = Some ps \<Longrightarrow> f w = Some t \<Longrightarrow>
   those (map (\<lambda>(k, v). map_option (Pair k) (f v)) (qs @ [(key, w)]))
     = Some (ps @ [(key, t)])"
  by (induction qs arbitrary: ps) (auto split: option.splits)

lemma props_obj_set:
  assumes "those (map (\<lambda>(k, v). map_option (Pair k) (f v)) qs) = Some ps" and "f w = Some t"
  shows "those (map (\<lambda>(k, v). map_option (Pair k) (f v)) (obj_set key w qs))
           = Some (obj_set key t ps)"
proof -
  from props_keys [OF assms(1)] have "fst ` set ps = fst ` set qs"
    by (metis set_map)
  then show ?thesis
    using props_update [OF assms] props_insert [OF assms] props_append [OF assms]
    by (simp add: obj_set_def)
qed


lemma json_of_ref:
  assumes "json_of h (VRef b) = Some tb"
  shows "b < length h \<and> ((\<exists>ps. tb = JObj ps) \<or> (\<exists>xs. tb = JArr xs))"
proof (cases "length h")
  case 0
  with assms show ?thesis by (simp add: json_of_def)
next
  case (Suc n)
  with assms show ?thesis
    by (auto simp: json_of_def split: if_splits cell.splits)
qed

lemma clone_step:
  assumes rd: "json_of h (VRef b) = Some tb"
  shows "\<exists>r' h1. json_clone h (VRef b) = Some (VRef r', h1)
          \<and> length h \<le> r' \<and> r' < length h1
          \<and> length (assign_property r' key (VStr x) h1) = length h1
          \<and> (\<forall>i < length h. assign_property r' key (VStr x) h1 ! i = h ! i)
          \<and> (\<forall>H. length h1 \<le> length H
                  \<and> (\<forall>i. length h \<le> i \<and> i < length h1
                         \<longrightarrow> H ! i = assign_property r' key (VStr x) h1 ! i)
                \<longrightarrow> tree_of (length h1 - length h) H (VRef r')
                      = Some (with_property key (JStr x) (json_copy tb)))"
proof -
  from json_of_ref [OF rd] consider ps where "tb = JObj ps" | xs where "tb = JArr xs"
    by blast
  then show ?thesis
  proof cases
    case 1
    let ?ps = "map (\<lambda>(k, v). (k, json_copy v)) ps"
    obtain qs h2 where a: "alloc_props ?ps h = (qs, h2)" by (cases "alloc_props ?ps h")
    let ?h1 = "h2 @ [ObjectCell qs]"
    let ?h3 = "assign_property (length h2) key (VStr x) ?h1"
    from alloc_reads(3) [OF a] obtain new where new: "h2 = h @ new"
      and rdp: "\<And>H. length h2 \<le> length H \<Longrightarrow>
                  (\<forall>i. length h \<le> i \<and> i < length h2 \<longrightarrow> H ! i = h2 ! i) \<Longrightarrow>
                  those (map (\<lambda>(k, v). map_option (Pair k) (tree_of (length h2 - length h) H v)) qs)
                    = Some ?ps"
      by blast
    have h3: "?h3 = ?h1[length h2 := ObjectCell (obj_set key (VStr x) qs)]"
      by (simp add: assign_property_def)
    have cl: "json_clone h (VRef b) = Some (VRef (length h2), ?h1)"
      using rd 1 a by (simp add: json_clone_def JSON_stringify_def JSON_parse_def)
    have old: "\<forall>i < length h. ?h3 ! i = h ! i"
      unfolding h3 using new by (auto simp: nth_append nth_list_update)
    have read: "tree_of (length ?h1 - length h) H (VRef (length h2))
                  = Some (with_property key (JStr x) (json_copy tb))"
      if H: "length ?h1 \<le> length H
             \<and> (\<forall>i. length h \<le> i \<and> i < length ?h1 \<longrightarrow> H ! i = ?h3 ! i)" for H
    proof -
      have root: "H ! length h2 = ObjectCell (obj_set key (VStr x) qs)" "length h2 < length H"
        using H new unfolding h3 by auto
      have "those (map (\<lambda>(k, v). map_option (Pair k) (tree_of (length h2 - length h) H v)) qs)
                    = Some ?ps"
      proof (rule rdp)
        show "length h2 \<le> length H" using root by simp
        show "\<forall>i. length h \<le> i \<and> i < length h2 \<longrightarrow> H ! i = h2 ! i"
          using H unfolding h3 by (auto simp: nth_append nth_list_update)
      qed
      then have "those (map (\<lambda>(k, v). map_option (Pair k) (tree_of (length h2 - length h) H v))
                          (obj_set key (VStr x) qs))
                   = Some (obj_set key (JStr x) ?ps)"
        by (rule props_obj_set) simp
      moreover have "length ?h1 - length h = Suc (length h2 - length h)"
        using new by simp
      ultimately show ?thesis using root 1 by simp
    qed
    have len: "length ?h3 = length ?h1" by (simp add: h3)
    have bounds: "length h \<le> length h2" "length h2 < length ?h1" by (simp_all add: new)
    have rd': "\<forall>H. length ?h1 \<le> length H
                  \<and> (\<forall>i. length h \<le> i \<and> i < length ?h1 \<longrightarrow> H ! i = ?h3 ! i)
                \<longrightarrow> tree_of (length ?h1 - length h) H (VRef (length h2))
                      = Some (with_property key (JStr x) (json_copy tb))"
      using read by blast
    have "json_clone h (VRef b) = Some (VRef (length h2), ?h1)
          \<and> length h \<le> length h2 \<and> length h2 < length ?h1
          \<and> length ?h3 = length ?h1
          \<and> (\<forall>i < length h. ?h3 ! i = h ! i)
          \<and> (\<forall>H. length ?h1 \<le> length H
                  \<and> (\<forall>i. length h \<le> i \<and> i < length ?h1 \<longrightarrow> H ! i = ?h3 ! i)
                \<longrightarrow> tree_of (length ?h1 - length h) H (VRef (length h2))
                      = Some (with_property key (JStr x) (json_copy tb)))"
      using cl bounds len old rd' by (intro conjI)
    then show ?thesis
      by (intro exI [of _ "length h2"] exI [of _ ?h1])
  next
    case 2
    let ?xs = "map json_copy xs"
    obtain vs h2 where a: "alloc_list ?xs h = (vs, h2)" by (cases "alloc_list ?xs h")
    let ?h1 = "h2 @ [ArrayCell vs]"
    have al: "alloc (JArr ?xs) h = (VRef (length h2), ?h1)" using a by simp
    from alloc_reads(1) [OF al] obtain new where new: "?h1 = h @ new"
      and rdp: "\<And>H. length ?h1 \<le> length H \<Longrightarrow>
                  (\<forall>i. length h \<le> i \<and> i < length ?h1 \<longrightarrow> H ! i = ?h1 ! i) \<Longrightarrow>
                  tree_of (length ?h1 - length h) H (VRef (length h2)) = Some (JArr ?xs)"
      by blast
    from alloc_reads(2) [OF a] obtain new2 where new2: "h2 = h @ new2" by blast
    have h3: "assign_property (length h2) key (VStr x) ?h1 = ?h1"
      by (simp add: assign_property_def)
    have cl: "json_clone h (VRef b) = Some (VRef (length h2), ?h1)"
      using rd 2 a by (simp add: json_clone_def JSON_stringify_def JSON_parse_def)
    have old: "\<forall>i < length h. ?h1 ! i = h ! i"
      using new2 by (auto simp: nth_append)
    have bounds: "length h \<le> length h2" "length h2 < length ?h1" by (simp_all add: new2)
    have rd': "\<forall>H. length ?h1 \<le> length H
                  \<and> (\<forall>i. length h \<le> i \<and> i < length ?h1 \<longrightarrow> H ! i = ?h1 ! i)
                \<longrightarrow> tree_of (length ?h1 - length h) H (VRef (length h2))
                      = Some (with_property key (JStr x) (json_copy tb))"
      using rdp 2 by simp
    have "json_clone h (VRef b) = Some (VRef (length h2), ?h1)
          \<and> length h \<le> length h2 \<and> length h2 < length ?h1
          \<and> length ?h1 = length ?h1
          \<and> (\<forall>i < length h. ?h1 ! i = h ! i)
          \<and> (\<forall>H. length ?h1 \<le> length H
                  \<and> (\<forall>i. length h \<le> i \<and> i < length ?h1 \<longrightarrow> H ! i = ?h1 ! i)
                \<longrightarrow> tree_of (length ?h1 - length h) H (VRef (length h2))
                      = Some (with_property key (JStr x) (json_copy tb)))"
      using cl bounds old rd' by (intro conjI) simp_all
    then have "json_clone h (VRef b) = Some (VRef (length h2), ?h1)
          \<and> length h \<le> length h2 \<and> length h2 < length ?h1
          \<and> length (assign_property (length h2) key (VStr x) ?h1) = length ?h1
          \<and> (\<forall>i < length h. assign_property (length h2) key (VStr x) ?h1 ! i = h ! i)
          \<and> (\<forall>H. length ?h1 \<le> length H
                  \<and> (\<forall>i. length h \<le> i \<and> i < length ?h1
                         \<longrightarrow> H ! i = assign_property (length h2) key (VStr x) ?h1 ! i)
                \<longrightarrow> tree_of (length ?h1 - length h) H (VRef (length h2))
                      = Some (with_property key (JStr x) (json_copy tb)))"
      unfolding h3 .
    then show ?thesis
      by (intro exI [of _ "length h2"] exI [of _ ?h1])
  qed
qed


lemma copy_optional:
  "map (\<lambda>(k, v). (k, json_copy v)) (optional k f x) = optional k (\<lambda>v. json_copy (f v)) x"
  by (cases x) (simp_all add: optional_def)

lemma optional_map_option: "optional k f (map_option g x) = optional k (\<lambda>v. f (g v)) x"
  by (cases x) (simp_all add: optional_def)

lemma json_copy_text: "json_copy (json_of_text x) = json_of_text x"
  by (cases x) simp_all

lemma json_copy_concept: "json_copy (json_of_concept c) = json_of_concept (concept_copy c)"
  by (simp add: json_of_concept_def concept_copy_def copy_optional optional_map_option
        json_copy_text comp_def)

lemma json_copy_vocabulary_type: "json_copy (json_of_vocabulary_type x) = json_of_vocabulary_type x"
  by (cases x) simp_all

lemma json_copy_vocabulary:
  "json_copy (json_of_vocabulary v) = json_of_vocabulary (vocabulary_copy v)"
  by (simp add: json_of_vocabulary_def vocabulary_copy_def copy_optional
        json_copy_vocabulary_type json_copy_concept comp_def)

lemma json_copy_datatype: "json_copy (json_of_datatype x) = json_of_datatype x"
  by (cases x) simp_all

lemma json_copy_system: "json_copy (json_of_system c) = json_of_system (system_copy c)"
  by (simp add: json_of_system_def system_copy_def copy_optional optional_map_option
        json_copy_datatype json_copy_vocabulary comp_def)

lemma json_copy_field: "json_copy (json_of_field f) = json_of_field (field_copy f)"
  by (simp add: json_of_field_def field_copy_def copy_optional optional_map_option
        json_copy_text json_copy_system comp_def)

lemma json_copy_group: "json_copy (json_of_group g) = json_of_group (group_copy g)"
  by (simp add: json_of_group_def group_copy_def copy_optional optional_map_option
        json_copy_text comp_def)

lemma json_copy_context:
  "(\<lambda>x. case (case x of (k, v) \<Rightarrow> (k, JStr v)) of (k, v) \<Rightarrow> (k, json_copy v))
     = (\<lambda>(k, v). (k, JStr v))"
  by (auto simp: fun_eq_iff)

lemma json_copy_schema: "json_copy (json_of_schema D) = json_of_schema (schema_copy D)"
  by (simp add: json_of_schema_def schema_copy_def copy_optional optional_map_option
        json_copy_group json_copy_field json_copy_context comp_def)

lemma with_version:
  "with_property ''version'' (JStr ver) (json_of_schema D) = json_of_schema (D\<lparr>version := ver\<rparr>)"
  by (simp add: json_of_schema_def obj_set_def)


lemma json_of_extend:
  assumes "json_of h v = Some t" "length h \<le> length H" "\<forall>i < length h. H ! i = h ! i"
  shows "json_of H v = Some t"
proof -
  from assms(1) have "tree_of (length h) h v = Some t" by (simp add: json_of_def)
  from tree_of_prefix [OF this assms(2,3)] have "tree_of (length h) H v = Some t" .
  from tree_of_mono [OF this assms(2)] show ?thesis by (simp add: json_of_def)
qed

lemma reads_from_json_of:
  assumes "reads_from lo h r"
  shows "\<exists>t. \<forall>H. length H = length h \<and> (\<forall>i. lo \<le> i \<and> i < length h \<longrightarrow> H ! i = h ! i)
               \<longrightarrow> json_of H (VRef r) = Some t"
proof -
  from assms obtain t n where n: "n \<le> length h"
    and rd: "\<And>H. length h \<le> length H \<Longrightarrow> (\<forall>i. lo \<le> i \<and> i < length h \<longrightarrow> H ! i = h ! i)
                \<Longrightarrow> tree_of n H (VRef r) = Some t"
    unfolding reads_from_def by blast
  have "json_of H (VRef r) = Some t"
    if "length H = length h \<and> (\<forall>i. lo \<le> i \<and> i < length h \<longrightarrow> H ! i = h ! i)" for H
  proof -
    from that have "tree_of n H (VRef r) = Some t" by (intro rd) auto
    from tree_of_mono [OF this, of "length H"] n that show ?thesis
      by (simp add: json_of_def)
  qed
  then show ?thesis by blast
qed

lemma reads_from_extend:
  assumes "reads_from lo h r" "length h \<le> length h2" "\<forall>i < length h. h2 ! i = h ! i"
  shows "reads_from lo h2 r"
proof -
  from assms(1) obtain t n where b: "lo \<le> r" "r < length h" and n: "n \<le> length h"
    and rd: "\<And>H. length h \<le> length H \<Longrightarrow> (\<forall>i. lo \<le> i \<and> i < length h \<longrightarrow> H ! i = h ! i)
                \<Longrightarrow> tree_of n H (VRef r) = Some t"
    unfolding reads_from_def by blast
  have "tree_of n H (VRef r) = Some t"
    if "length h2 \<le> length H \<and> (\<forall>i. lo \<le> i \<and> i < length h2 \<longrightarrow> H ! i = h2 ! i)" for H
    using that assms(2,3) by (intro rd) auto
  with b n assms(2) show ?thesis
    unfolding reads_from_def by (intro conjI exI [of _ t] exI [of _ n]) auto
qed

lemma heap_inv_readable:
  assumes "heap_inv h0 refs0 h refs" "map_of refs k = Some r"
  shows "\<exists>t. json_of h (VRef r) = Some t"
proof -
  from assms have "(map_of refs0 k = Some r \<and> json_of h0 (VRef r) \<noteq> None)
                   \<or> reads_from (length h0) h r"
    unfolding heap_inv_def by blast
  then show ?thesis
  proof
    assume "map_of refs0 k = Some r \<and> json_of h0 (VRef r) \<noteq> None"
    then obtain t where "json_of h0 (VRef r) = Some t" by auto
    from json_of_extend [OF this] assms(1) show ?thesis
      unfolding heap_inv_def by blast
  next
    assume "reads_from (length h0) h r"
    from reads_from_json_of [OF this] show ?thesis by blast
  qed
qed

lemma copySchemas_refs_invariant:
  "heap_inv h0 refs0 h refs \<Longrightarrow>
   \<exists>h' refs'. copySchemas_refs ctx base ver fs (h, refs) = Some (h', refs')
      \<and> heap_inv h0 refs0 h' refs'"
proof (induction fs arbitrary: h refs)
  case Nil
  then show ?case by simp
next
  case (Cons f fs)
  show ?case
  proof (cases "map_of refs (cacheKey ctx base f)")
    case None
    with Cons.IH [OF Cons.prems] show ?thesis by simp
  next
    case (Some b)
    from heap_inv_readable [OF Cons.prems Some] obtain tb where
      tb: "json_of h (VRef b) = Some tb" by blast
    from clone_step [OF tb, of "''version''" ver] obtain r' h1 where
      cl: "json_clone h (VRef b) = Some (VRef r', h1)"
      and bd: "length h \<le> r'" "r' < length h1"
      and len: "length (assign_property r' ''version'' (VStr ver) h1) = length h1"
      and old: "\<forall>i < length h. assign_property r' ''version'' (VStr ver) h1 ! i = h ! i"
      and rd: "\<And>H. length h1 \<le> length H \<Longrightarrow>
                  (\<forall>i. length h \<le> i \<and> i < length h1
                         \<longrightarrow> H ! i = assign_property r' ''version'' (VStr ver) h1 ! i) \<Longrightarrow>
                  tree_of (length h1 - length h) H (VRef r')
                      = Some (with_property ''version'' (JStr ver) (json_copy tb))"
      by blast
    let ?h3 = "assign_property r' ''version'' (VStr ver) h1"
    let ?refs2 = "AList.update (cacheKey ctx ver f) r' refs"
    from Cons.prems have i1: "length h0 \<le> length h" "\<forall>i < length h0. h ! i = h0 ! i"
      and i3: "\<And>k r. map_of refs k = Some r \<Longrightarrow>
                 (map_of refs0 k = Some r \<and> json_of h0 (VRef r) \<noteq> None)
                 \<or> reads_from (length h0) h r"
      unfolding heap_inv_def by blast+
    have ext: "length h \<le> length ?h3" using bd len by simp
    have new: "reads_from (length h0) ?h3 r'"
      unfolding reads_from_def
    proof (intro conjI exI [of _ "with_property ''version'' (JStr ver) (json_copy tb)"]
             exI [of _ "length h1 - length h"] allI impI)
      show "length h0 \<le> r'" using i1 bd by simp
      show "r' < length ?h3" using bd len by simp
      show "length h1 - length h \<le> length ?h3" using len by simp
      fix H
      assume H: "length ?h3 \<le> length H \<and> (\<forall>i. length h0 \<le> i \<and> i < length ?h3 \<longrightarrow> H ! i = ?h3 ! i)"
      show "tree_of (length h1 - length h) H (VRef r')
              = Some (with_property ''version'' (JStr ver) (json_copy tb))"
      proof (rule rd)
        show "length h1 \<le> length H" using H len by simp
        show "\<forall>i. length h \<le> i \<and> i < length h1 \<longrightarrow> H ! i = ?h3 ! i"
          using H len i1 by auto
      qed
    qed
    have inv: "heap_inv h0 refs0 ?h3 ?refs2"
      unfolding heap_inv_def
    proof (intro conjI)
      show "length h0 \<le> length ?h3" using i1 ext by simp
      show "\<forall>i < length h0. ?h3 ! i = h0 ! i" using i1 old by auto
      show "\<forall>k r. map_of ?refs2 k = Some r \<longrightarrow>
              (map_of refs0 k = Some r \<and> json_of h0 (VRef r) \<noteq> None)
              \<or> reads_from (length h0) ?h3 r"
      proof (intro allI impI)
        fix k r
        assume k: "map_of ?refs2 k = Some r"
        show "(map_of refs0 k = Some r \<and> json_of h0 (VRef r) \<noteq> None)
              \<or> reads_from (length h0) ?h3 r"
        proof (cases "k = cacheKey ctx ver f")
          case True
          with k have "r = r'" by (simp add: update_conv')
          with new show ?thesis by simp
        next
          case False
          with k have "map_of refs k = Some r" by (simp add: update_conv')
          from i3 [OF this] show ?thesis
          proof
            assume "reads_from (length h0) h r"
            from reads_from_extend [OF this ext old] show ?thesis by simp
          qed simp
        qed
      qed
    qed
    from Cons.IH [OF inv] cl Some show ?thesis by simp
  qed
qed


lemma stores_lookup:
  "stores h refs cache \<Longrightarrow>
   (case map_of refs k of
      None \<Rightarrow> map_of cache k = None
    | Some r \<Rightarrow> \<exists>D. map_of cache k = Some D \<and> json_of h (VRef r) = Some (json_of_schema D))"
  unfolding stores_def
  by (induction refs cache rule: list_all2_induct) (auto split: option.splits)

lemma stores_update:
  "stores h refs cache \<Longrightarrow> json_of h (VRef r) = Some (json_of_schema D) \<Longrightarrow>
   stores h (AList.update k r refs) (AList.update k D cache)"
  unfolding stores_def
  by (induction refs cache rule: list_all2_induct) auto

lemma stores_extend:
  assumes "stores h refs cache" "length h \<le> length H" "\<forall>i < length h. H ! i = h ! i"
  shows "stores H refs cache"
  using assms(1) unfolding stores_def
  by (rule list_all2_mono) (auto intro: json_of_extend [OF _ assms(2,3)])

lemma copySchemas_refs_stores:
  "stores h refs cache \<Longrightarrow>
   \<exists>h' refs'. copySchemas_refs ctx base ver fs (h, refs) = Some (h', refs')
      \<and> stores h' refs' (copySchemas ctx base ver fs cache)"
proof (induction fs arbitrary: h refs cache)
  case Nil
  then show ?case by simp
next
  case (Cons f fs)
  show ?case
  proof (cases "map_of refs (cacheKey ctx base f)")
    case None
    with stores_lookup [OF Cons.prems, of "cacheKey ctx base f"]
    have "map_of cache (cacheKey ctx base f) = None" by simp
    with None Cons.IH [OF Cons.prems] show ?thesis by simp
  next
    case (Some b)
    with stores_lookup [OF Cons.prems, of "cacheKey ctx base f"] obtain D where
      D: "map_of cache (cacheKey ctx base f) = Some D"
      and tb: "json_of h (VRef b) = Some (json_of_schema D)"
      by auto
    from clone_step [OF tb, of "''version''" ver] obtain r' h1 where
      cl: "json_clone h (VRef b) = Some (VRef r', h1)"
      and bd: "length h \<le> r'" "r' < length h1"
      and len: "length (assign_property r' ''version'' (VStr ver) h1) = length h1"
      and old: "\<forall>i < length h. assign_property r' ''version'' (VStr ver) h1 ! i = h ! i"
      and rd: "\<And>H. length h1 \<le> length H \<Longrightarrow>
                  (\<forall>i. length h \<le> i \<and> i < length h1
                         \<longrightarrow> H ! i = assign_property r' ''version'' (VStr ver) h1 ! i) \<Longrightarrow>
                  tree_of (length h1 - length h) H (VRef r')
                      = Some (with_property ''version'' (JStr ver) (json_copy (json_of_schema D)))"
      by blast
    let ?h3 = "assign_property r' ''version'' (VStr ver) h1"
    let ?D' = "(schema_copy D)\<lparr>version := ver\<rparr>"
    have ext: "length h \<le> length ?h3" using bd len by simp
    have "tree_of (length h1 - length h) ?h3 (VRef r') = Some (json_of_schema ?D')"
      using rd [of ?h3] len by (simp add: json_copy_schema with_version)
    from tree_of_mono [OF this, of "length ?h3"] len
    have new: "json_of ?h3 (VRef r') = Some (json_of_schema ?D')"
      by (simp add: json_of_def)
    have "stores ?h3 refs cache"
      using Cons.prems ext old by (rule stores_extend)
    from stores_update [OF this new]
    have "stores ?h3 (AList.update (cacheKey ctx ver f) r' refs)
            (AList.update (cacheKey ctx ver f) ?D' cache)" .
    from Cons.IH [OF this] cl Some D show ?thesis by simp
  qed
qed


lemma copySchemas_refs_independent:
  assumes readable: "\<forall>k r. map_of refs k = Some r \<longrightarrow> json_of h (VRef r) \<noteq> None"
  shows "\<exists>h' refs'. copySchemas_refs ctx base ver fs (h, refs) = Some (h', refs')
           \<and> length h \<le> length h' \<and> (\<forall>i < length h. h' ! i = h ! i)
           \<and> (\<forall>k r'. map_of refs' k = Some r' \<and> map_of refs k \<noteq> Some r' \<longrightarrow>
                 length h \<le> r' \<and> r' < length h'
                 \<and> json_of h' (VRef r') \<noteq> None
                 \<and> (\<forall>c X. c < length h \<longrightarrow> json_of (h'[c := X]) (VRef r') = json_of h' (VRef r')))
           \<and> (\<forall>k r c X. map_of refs k = Some r \<and> length h \<le> c \<longrightarrow>
                 json_of (h'[c := X]) (VRef r) = json_of h (VRef r))
           \<and> (stores h refs cache \<longrightarrow> stores h' refs' (copySchemas ctx base ver fs cache))"
proof -
  from readable have "heap_inv h refs h refs"
    unfolding heap_inv_def by simp
  from copySchemas_refs_invariant [OF this, of ctx base ver fs] obtain h' refs' where
    res: "copySchemas_refs ctx base ver fs (h, refs) = Some (h', refs')"
    and inv: "heap_inv h refs h' refs'"
    by blast
  from inv have frame: "length h \<le> length h'" "\<forall>i < length h. h' ! i = h ! i"
    and cases: "\<And>k r. map_of refs' k = Some r \<Longrightarrow>
                 (map_of refs k = Some r \<and> json_of h (VRef r) \<noteq> None)
                 \<or> reads_from (length h) h' r"
    unfolding heap_inv_def by blast+
  have written: "length h \<le> r' \<and> r' < length h'
                 \<and> json_of h' (VRef r') \<noteq> None
                 \<and> (\<forall>c X. c < length h \<longrightarrow> json_of (h'[c := X]) (VRef r') = json_of h' (VRef r'))"
    if "map_of refs' k = Some r' \<and> map_of refs k \<noteq> Some r'" for k r'
  proof -
    from that cases [of k r'] have rf: "reads_from (length h) h' r'" by blast
    from reads_from_json_of [OF rf] obtain t where
      t: "\<And>H. length H = length h' \<Longrightarrow>
              (\<forall>i. length h \<le> i \<and> i < length h' \<longrightarrow> H ! i = h' ! i) \<Longrightarrow>
              json_of H (VRef r') = Some t"
      by blast
    have 1: "json_of h' (VRef r') = Some t" by (rule t) simp_all
    have 2: "json_of (h'[c := X]) (VRef r') = Some t" if "c < length h" for c X
      using that by (intro t) auto
    from rf 1 2 show ?thesis by (simp add: reads_from_def)
  qed
  have kept: "json_of (h'[c := X]) (VRef r) = json_of h (VRef r)"
    if "map_of refs k = Some r \<and> length h \<le> c" for k r c X
  proof -
    from that readable obtain t where t: "json_of h (VRef r) = Some t" by blast
    have "json_of (h'[c := X]) (VRef r) = Some t"
      using t
    proof (rule json_of_extend)
      show "length h \<le> length (h'[c := X])" using frame by simp
      show "\<forall>i < length h. h'[c := X] ! i = h ! i" using frame that by simp
    qed
    with t show ?thesis by simp
  qed
  have refine: "stores h' refs' (copySchemas ctx base ver fs cache)" if "stores h refs cache"
    using copySchemas_refs_stores [OF that, of ctx base ver fs] res by simp
  have "copySchemas_refs ctx base ver fs (h, refs) = Some (h', refs')
           \<and> length h \<le> length h' \<and> (\<forall>i < length h. h' ! i = h ! i)
           \<and> (\<forall>k r'. map_of refs' k = Some r' \<and> map_of refs k \<noteq> Some r' \<longrightarrow>
                 length h \<le> r' \<and> r' < length h'
                 \<and> json_of h' (VRef r') \<noteq> None
                 \<and> (\<forall>c X. c < length h \<longrightarrow> json_of (h'[c := X]) (VRef r') = json_of h' (VRef r')))
           \<and> (\<forall>k r c X. map_of refs k = Some r \<and> length h \<le> c \<longrightarrow>
                 json_of (h'[c := X]) (VRef r) = json_of h (VRef r))
           \<and> (stores h refs cache \<longrightarrow> stores h' refs' (copySchemas ctx base ver fs cache))"
  proof (intro conjI)
    show "\<forall>k r'. map_of refs' k = Some r' \<and> map_of refs k \<noteq> Some r' \<longrightarrow>
                 length h \<le> r' \<and> r' < length h'
                 \<and> json_of h' (VRef r') \<noteq> None
                 \<and> (\<forall>c X. c < length h \<longrightarrow> json_of (h'[c := X]) (VRef r') = json_of h' (VRef r'))"
      using written by blast
    show "\<forall>k r c X. map_of refs k = Some r \<and> length h \<le> c \<longrightarrow>
                 json_of (h'[c := X]) (VRef r) = json_of h (VRef r)"
      using kept by blast
    show "stores h refs cache \<longrightarrow> stores h' refs' (copySchemas ctx base ver fs cache)"
      using refine by blast
  qed (use res frame in simp_all)
  then show ?thesis by (intro exI [of _ h'] exI [of _ refs'])
qed


subsection \<open>The claim\<close>

text \<open>
  C7 as stated fails in two ways.

  Where cache keys collide: in \<open>nested_store\<close> the version \<^verbatim>\<open>2/x\<close> lists \<^verbatim>\<open>x/core.json\<close> and
  \<^verbatim>\<open>core.json\<close>. \<^verbatim>\<open>createVersion("default", "2", "2/x")\<close> writes the copy of \<^verbatim>\<open>x/core.json\<close> to
  the key \<^verbatim>\<open>default@2/x/core.json\<close>, which is the base document of \<^verbatim>\<open>core.json\<close>: the base
  version's document is replaced, and the document materialized for \<^verbatim>\<open>core.json\<close> under
  \<^verbatim>\<open>default@2\<close> is a copy of the other file's document.

  Where a number is not finite: the copy of a document whose validation holds \<^verbatim>\<open>Infinity\<close>
  holds \<^verbatim>\<open>null\<close> in its place, so it differs from the base document in more than its
  version.
\<close>

theorem createVersion_clone_counterexample:
  "map_of (schemas nested_store) (cacheKey ''default'' ''2/x'' ''core.json'') = Some core_schema
   \<and> map_of (schemas (createVersion ''default'' ''2'' (Some ''2/x'') ''2024-06-01''
                        ''2024-06-01T08:00:00.000Z'' nested_store))
         (cacheKey ''default'' ''2'' ''core.json'')
       = Some (core_schema\<lparr>profileId := ''type:event'', version := ''2''\<rparr>)
   \<and> map_of (schemas (createVersion ''default'' ''2'' (Some ''2/x'') ''2024-06-01''
                        ''2024-06-01T08:00:00.000Z'' nested_store))
         (cacheKey ''default'' ''2/x'' ''core.json'')
       = Some (core_schema\<lparr>profileId := ''type:event'', version := ''2''\<rparr>)
   \<and> core_schema\<lparr>profileId := ''type:event'', version := ''2''\<rparr>
       \<noteq> core_schema\<lparr>version := ''2''\<rparr>
   \<and> map_of (schemas unbounded_store) (cacheKey ''default'' ''1.8.0'' ''core.json'')
       = Some unbounded_schema
   \<and> map_of (schemas (createVersion ''default'' ''2.0.0'' (Some ''1.8.0'') ''2024-06-01''
                        ''2024-06-01T08:00:00.000Z'' unbounded_store))
         (cacheKey ''default'' ''2.0.0'' ''core.json'')
       = Some (nulled_schema\<lparr>version := ''2.0.0''\<rparr>)
   \<and> nulled_schema\<lparr>version := ''2.0.0''\<rparr> \<noteq> unbounded_schema\<lparr>version := ''2.0.0''\<rparr>"
  by (simp add: nested_store_def nested_manifest_def default_manifest_def initialState_def
        createVersion_def resolveBaseVersion_def resolveBaseSchemas_def truthy_def
        cacheKey_def Let_def markUnsaved_def core_schema_def unbounded_store_def
        example_store_def unbounded_schema_def nulled_schema_def schema_copy_def
        field_copy_def system_copy_def group_copy_def vocabulary_copy_def concept_copy_def
        title_field_def content_type_field_def example_system_def general_group_def
        event_concept_def plain_concept_def)

text \<open>
  C7, as the code has it. Let \<^verbatim>\<open>createVersion(ctx, ver, basedOnVersion)\<close> find the manifest
  of \<open>ctx\<close>, and let \<open>base\<close> and \<open>files\<close> be the base version and the schema list it
  resolves: \<open>base\<close> is the version passed in, unless that is missing or empty, and \<open>files\<close>
  is the schema list of \<open>base\<close> in the manifest, if it has one.
  \<^item> For every listed file whose base document is cached, the cache afterwards holds a
    document under \<open>ctx@ver\<close> whose \<open>version\<close> is \<open>ver\<close>. It is the \<open>schema_copy\<close> of the
    base document (the document as JSON carries it: an infinity or not-a-number is
    \<^verbatim>\<open>null\<close>, negative zero is zero) with \<open>version\<close> replaced, provided no other listed
    file's new key is the base key, which is so whenever the two version strings have no
    slash.
  \<^item> Every cache slot that \<^verbatim>\<open>createVersion\<close> writes or changes is such a slot
    \<open>ctx@ver/file\<close> and holds a document with \<open>version = ver\<close>; so if nothing was cached
    under \<open>ctx@ver\<close> before, every document under \<open>ctx@ver\<close> afterwards has
    \<open>version = ver\<close>.
  \<^item> On a heap whose schema map holds readable objects the loop does not throw. It
    changes no object that existed before. Every slot it writes holds an object that it
    allocated, and the JSON value under that object stays as it is whatever is assigned
    to an object that existed before: the copy shares no object, at any depth, with an
    older document. The JSON value under every reference of the old map stays as it was
    whatever is assigned to an object that the loop allocated: assigning to the copy,
    at any depth, does not alter the base document. If the heap held the documents of
    the schema map before, it holds those of the new schema map afterwards.
\<close>

theorem createVersion_stamps_independent_clones:
  assumes manifest: "map_of (contextManifests s) ctx = Some manifest"
    and base: "base = resolveBaseVersion basedOnVersion manifest"
    and files: "files = resolveBaseSchemas base manifest"
    and s': "s' = createVersion ctx ver basedOnVersion today now s"
  shows "(\<forall>b. basedOnVersion = Some b \<and> b \<noteq> [] \<longrightarrow> base = b)
         \<and> (\<forall>e. map_of (versions manifest) base = Some e \<longrightarrow> files = entry_schemas e)
         \<and> (\<forall>f \<in> set files. \<forall>D. map_of (schemas s) (cacheKey ctx base f) = Some D \<longrightarrow>
            (\<exists>D'. map_of (schemas s') (cacheKey ctx ver f) = Some D' \<and> version D' = ver
               \<and> ((\<forall>g \<in> set files. cacheKey ctx ver g = cacheKey ctx base f \<longrightarrow> g = f)
                    \<longrightarrow> D' = (schema_copy D)\<lparr>version := ver\<rparr>)
               \<and> (slash_free ver \<and> slash_free base \<longrightarrow> D' = (schema_copy D)\<lparr>version := ver\<rparr>)))
         \<and> (\<forall>k. map_of (schemas s') k \<noteq> map_of (schemas s) k \<longrightarrow>
               k \<in> cacheKey ctx ver ` set files
               \<and> (\<exists>D'. map_of (schemas s') k = Some D' \<and> version D' = ver))
         \<and> ((\<forall>f. map_of (schemas s) (cacheKey ctx ver f) = None) \<longrightarrow>
               (\<forall>f D'. map_of (schemas s') (cacheKey ctx ver f) = Some D' \<longrightarrow> version D' = ver))
         \<and> (\<forall>h refs. (\<forall>k r. map_of refs k = Some r \<longrightarrow> json_of h (VRef r) \<noteq> None) \<longrightarrow>
               (\<exists>h' refs'. copySchemas_refs ctx base ver files (h, refs) = Some (h', refs')
                  \<and> length h \<le> length h' \<and> (\<forall>i < length h. h' ! i = h ! i)
                  \<and> (\<forall>k r'. map_of refs' k = Some r' \<and> map_of refs k \<noteq> Some r' \<longrightarrow>
                        length h \<le> r' \<and> r' < length h'
                        \<and> json_of h' (VRef r') \<noteq> None
                        \<and> (\<forall>c X. c < length h \<longrightarrow>
                              json_of (h'[c := X]) (VRef r') = json_of h' (VRef r')))
                  \<and> (\<forall>k r c X. map_of refs k = Some r \<and> length h \<le> c \<longrightarrow>
                        json_of (h'[c := X]) (VRef r) = json_of h (VRef r))
                  \<and> (stores h refs (schemas s) \<longrightarrow> stores h' refs' (schemas s'))))"
proof -
  have cache: "schemas s' = copySchemas ctx base ver files (schemas s)"
    using manifest by (simp add: s' createVersion_def Let_def markUnsaved_def base files)
  have 0: "\<forall>b. basedOnVersion = Some b \<and> b \<noteq> [] \<longrightarrow> base = b"
    by (auto simp: base resolveBaseVersion_def truthy_def)
  have 00: "\<forall>e. map_of (versions manifest) base = Some e \<longrightarrow> files = entry_schemas e"
    by (auto simp: files resolveBaseSchemas_def)
  have 1: "\<exists>D'. map_of (schemas s') (cacheKey ctx ver f) = Some D' \<and> version D' = ver
               \<and> ((\<forall>g \<in> set files. cacheKey ctx ver g = cacheKey ctx base f \<longrightarrow> g = f)
                    \<longrightarrow> D' = (schema_copy D)\<lparr>version := ver\<rparr>)
               \<and> (slash_free ver \<and> slash_free base \<longrightarrow> D' = (schema_copy D)\<lparr>version := ver\<rparr>)"
    if f: "f \<in> set files" and D: "map_of (schemas s) (cacheKey ctx base f) = Some D" for f D
  proof -
    from copySchemas_stamps [OF f, of "schemas s" ctx base ver] D
    obtain D' where D': "map_of (schemas s') (cacheKey ctx ver f) = Some D'" "version D' = ver"
      unfolding cache by auto
    have clone: "D' = (schema_copy D)\<lparr>version := ver\<rparr>"
      if "\<forall>g \<in> set files. cacheKey ctx ver g = cacheKey ctx base f \<longrightarrow> g = f"
      using copySchemas_clone [OF f _ that, of "schemas s" D] D D'(1)
      unfolding cache by simp
    have "D' = (schema_copy D)\<lparr>version := ver\<rparr>" if "slash_free ver \<and> slash_free base"
    proof (rule clone)
      from that cacheKey_slash_free
      show "\<forall>g \<in> set files. cacheKey ctx ver g = cacheKey ctx base f \<longrightarrow> g = f"
        by blast
    qed
    with D' clone show ?thesis by blast
  qed
  have 2: "k \<in> cacheKey ctx ver ` set files
           \<and> (\<exists>D'. map_of (schemas s') k = Some D' \<and> version D' = ver)"
    if "map_of (schemas s') k \<noteq> map_of (schemas s) k" for k
    using copySchemas_written [of ctx base ver files "schemas s" k] that
    unfolding cache by simp
  have 3: "version D' = ver"
    if "\<forall>f. map_of (schemas s) (cacheKey ctx ver f) = None"
      and "map_of (schemas s') (cacheKey ctx ver f) = Some D'" for f D'
    using 2 [of "cacheKey ctx ver f"] that by auto
  show ?thesis
  proof (intro conjI)
    show "\<forall>f \<in> set files. \<forall>D. map_of (schemas s) (cacheKey ctx base f) = Some D \<longrightarrow>
            (\<exists>D'. map_of (schemas s') (cacheKey ctx ver f) = Some D' \<and> version D' = ver
               \<and> ((\<forall>g \<in> set files. cacheKey ctx ver g = cacheKey ctx base f \<longrightarrow> g = f)
                    \<longrightarrow> D' = (schema_copy D)\<lparr>version := ver\<rparr>)
               \<and> (slash_free ver \<and> slash_free base \<longrightarrow> D' = (schema_copy D)\<lparr>version := ver\<rparr>))"
      by (intro ballI allI impI) (rule 1)
    show "\<forall>k. map_of (schemas s') k \<noteq> map_of (schemas s) k \<longrightarrow>
               k \<in> cacheKey ctx ver ` set files
               \<and> (\<exists>D'. map_of (schemas s') k = Some D' \<and> version D' = ver)"
      by (intro allI impI) (rule 2)
    show "(\<forall>f. map_of (schemas s) (cacheKey ctx ver f) = None) \<longrightarrow>
               (\<forall>f D'. map_of (schemas s') (cacheKey ctx ver f) = Some D' \<longrightarrow> version D' = ver)"
      by (intro allI impI) (rule 3)
    show "\<forall>h refs. (\<forall>k r. map_of refs k = Some r \<longrightarrow> json_of h (VRef r) \<noteq> None) \<longrightarrow>
               (\<exists>h' refs'. copySchemas_refs ctx base ver files (h, refs) = Some (h', refs')
                  \<and> length h \<le> length h' \<and> (\<forall>i < length h. h' ! i = h ! i)
                  \<and> (\<forall>k r'. map_of refs' k = Some r' \<and> map_of refs k \<noteq> Some r' \<longrightarrow>
                        length h \<le> r' \<and> r' < length h'
                        \<and> json_of h' (VRef r') \<noteq> None
                        \<and> (\<forall>c X. c < length h \<longrightarrow>
                              json_of (h'[c := X]) (VRef r') = json_of h' (VRef r')))
                  \<and> (\<forall>k r c X. map_of refs k = Some r \<and> length h \<le> c \<longrightarrow>
                        json_of (h'[c := X]) (VRef r) = json_of h (VRef r))
                  \<and> (stores h refs (schemas s) \<longrightarrow> stores h' refs' (schemas s')))"
      unfolding cache by (intro allI impI) (rule copySchemas_refs_independent)
  qed (rule 0, rule 00)
qed

theorem createVersion_stamps_independent_clones_witness:
  "map_of (schemas (createVersion ''default'' ''2.0.0'' (Some ''1.8.0'') ''2024-06-01''
                      ''2024-06-01T08:00:00.000Z'' grouped_store))
     ''default@2.0.0/core.json'' = Some (grouped_schema\<lparr>version := ''2.0.0''\<rparr>)
   \<and> (\<exists>h' refs'.
         copySchemas_refs ''default'' ''1.8.0'' ''2.0.0'' [''core.json'']
           (grouped_heap, [(''default@1.8.0/core.json'', 4)]) = Some (h', refs')
         \<and> stores h' refs'
             (schemas (createVersion ''default'' ''2.0.0'' (Some ''1.8.0'') ''2024-06-01''
                         ''2024-06-01T08:00:00.000Z'' grouped_store))
         \<and> (\<forall>i < 5. h' ! i = grouped_heap ! i)
         \<and> (\<forall>c X. 5 \<le> c \<longrightarrow> json_of (h'[c := X]) (VRef 4) = Some (json_of_schema grouped_schema)))"
proof -
  let ?s' = "createVersion ''default'' ''2.0.0'' (Some ''1.8.0'') ''2024-06-01''
               ''2024-06-01T08:00:00.000Z'' grouped_store"
  let ?refs = "[(''default@1.8.0/core.json'', 4 :: nat)]"
  have manifest: "map_of (contextManifests grouped_store) ''default'' = Some default_manifest"
    by (simp add: grouped_store_def example_store_def)
  have base: "''1.8.0'' = resolveBaseVersion (Some ''1.8.0'') default_manifest"
    by (simp add: resolveBaseVersion_def truthy_def)
  have files: "[''core.json''] = resolveBaseSchemas ''1.8.0'' default_manifest"
    by (simp add: resolveBaseSchemas_def default_manifest_def)
  have cached: "map_of (schemas grouped_store) (cacheKey ''default'' ''1.8.0'' ''core.json'')
                  = Some grouped_schema"
    by (simp add: grouped_store_def cacheKey_def)
  have sf: "slash_free ''2.0.0'' \<and> slash_free ''1.8.0''"
    by (simp add: slash_free_def)
  have mem: "''core.json'' \<in> set [''core.json'']" by simp
  have holds: "json_of grouped_heap (VRef 4) = Some (json_of_schema grouped_schema)"
    by (simp add: json_of_def grouped_heap_def grouped_schema_def json_of_schema_def
          json_of_group_def general_group_def optional_def)
  then have readable: "\<forall>k r. map_of ?refs k = Some r \<longrightarrow> json_of grouped_heap (VRef r) \<noteq> None"
    by simp
  have st: "stores grouped_heap ?refs (schemas grouped_store)"
    using holds by (simp add: stores_def grouped_store_def)
  have copy: "schema_copy grouped_schema = grouped_schema"
    by (simp add: schema_copy_def grouped_schema_def group_copy_def general_group_def)
  note cv = createVersion_stamps_independent_clones
              [where ver = "''2.0.0''" and today = "''2024-06-01''"
                 and now = "''2024-06-01T08:00:00.000Z''", OF manifest base files refl]
  from cv [THEN conjunct2, THEN conjunct2, THEN conjunct1, rule_format, OF mem cached]
  obtain D' where D': "map_of (schemas ?s') (cacheKey ''default'' ''2.0.0'' ''core.json'') = Some D'"
    and imp: "slash_free ''2.0.0'' \<and> slash_free ''1.8.0''
                \<longrightarrow> D' = (schema_copy grouped_schema)\<lparr>version := ''2.0.0''\<rparr>"
    by blast
  from imp sf have "D' = (schema_copy grouped_schema)\<lparr>version := ''2.0.0''\<rparr>" by (rule mp)
  with D' have 1: "map_of (schemas ?s') ''default@2.0.0/core.json''
                  = Some (grouped_schema\<lparr>version := ''2.0.0''\<rparr>)"
    by (simp add: cacheKey_def copy)
  from cv [THEN conjunct2, THEN conjunct2, THEN conjunct2, THEN conjunct2, THEN conjunct2,
           THEN spec, of grouped_heap, THEN spec, of ?refs, THEN mp, OF readable]
  obtain h' refs' where
    res: "copySchemas_refs ''default'' ''1.8.0'' ''2.0.0'' [''core.json''] (grouped_heap, ?refs)
            = Some (h', refs')"
    and frame: "\<forall>i < length grouped_heap. h' ! i = grouped_heap ! i"
    and kept: "\<forall>k r c X. map_of ?refs k = Some r \<and> length grouped_heap \<le> c \<longrightarrow>
                 json_of (h'[c := X]) (VRef r) = json_of grouped_heap (VRef r)"
    and refine: "stores grouped_heap ?refs (schemas grouped_store) \<longrightarrow> stores h' refs' (schemas ?s')"
    by blast
  have len: "length grouped_heap = 5" by (simp add: grouped_heap_def)
  from refine st have 2: "stores h' refs' (schemas ?s')" by (rule mp)
  from frame have 3: "\<forall>i < 5. h' ! i = grouped_heap ! i" by (simp only: len)
  have 4: "\<forall>c X. 5 \<le> c \<longrightarrow> json_of (h'[c := X]) (VRef 4) = Some (json_of_schema grouped_schema)"
    using kept [THEN spec, of "''default@1.8.0/core.json''", THEN spec, of 4] holds
    by (simp add: len)
  from res 2 3 4 have "\<exists>h' refs'.
         copySchemas_refs ''default'' ''1.8.0'' ''2.0.0'' [''core.json''] (grouped_heap, ?refs)
           = Some (h', refs')
         \<and> stores h' refs' (schemas ?s')
         \<and> (\<forall>i < 5. h' ! i = grouped_heap ! i)
         \<and> (\<forall>c X. 5 \<le> c \<longrightarrow> json_of (h'[c := X]) (VRef 4) = Some (json_of_schema grouped_schema))"
    by (intro exI [of _ h'] exI [of _ refs'] conjI)
  with 1 show ?thesis by (intro conjI)
qed


section \<open>Export and import of the archive\<close>













lemma cacheKey_tail: "cacheKey ctx ver f = cacheKey ctx ver' f' \<longleftrightarrow> ver @ ''/'' @ f = ver' @ ''/'' @ f'"
  by (simp add: cacheKey_def)


































section \<open>Import of a JSON document\<close>

lemma fold_update_lookup:
  "map_of (fold (\<lambda>(k, v). AList.update k v) entries m) k = after_setting m entries k"
  by (induction entries arbitrary: m)
     (auto simp: after_setting_def update_conv' map_add_def split: option.splits)

lemma loose_lookup:
  "map_of (loose m) k = map_option Shaped (map_of m k)"
  by (induction m) (auto simp: loose_def)

lemma typed_loose:
  "typed (loose m) = Some m"
  by (induction m) (auto simp: loose_def typed_def)

lemma update_loose:
  "AList.update k (Shaped x) (loose m) = loose (AList.update k x m)"
  by (induction m) (auto simp: loose_def)

lemma shaped_fold:
  "shaped entries \<Longrightarrow> \<exists>m'. fold (\<lambda>(k, v). AList.update k v) entries (loose m) = loose m'"
proof (induction entries arbitrary: m)
  case Nil
  show ?case by (simp, rule exI [of _ m], rule refl)
next
  case (Cons e entries)
  obtain k v where e: "e = (k, v)" by (cases e)
  from Cons.prems e obtain x where v: "v = Shaped x" and rest: "shaped entries"
    by (cases v) (simp_all add: shaped_def)
  from Cons.IH [OF rest, of "AList.update k x m"] show ?case
    by (simp add: e v update_loose)
qed

lemma importVersionTables_fold:
  "importVersionTables ctx tables C =
     (if NullTable \<in> snd ` set tables then None
      else Some (fold (\<lambda>(k, v). AList.update k v) (concat (map (table_schemas ctx) tables)) C))"
proof (induction tables arbitrary: C)
  case Nil
  show ?case by simp
next
  case (Cons t tables)
  obtain ver table where t: "t = (ver, table)" by (cases t)
  show ?case
  proof (cases table)
    case NullTable
    with t show ?thesis by simp
  next
    case (FileTable files)
    have "fold (\<lambda>(schemaFile, schema). AList.update (cacheKey ctx ver schemaFile) schema) files C
            = fold (\<lambda>(k, v). AList.update k v)
                (map (\<lambda>(schemaFile, schema). (cacheKey ctx ver schemaFile, schema)) files) C"
      by (simp add: fold_map comp_def case_prod_unfold)
    with t FileTable Cons.IH show ?thesis
      by (simp add: table_schemas_def)
  qed
qed

lemma throwing_Cons:
  "throwing ((ctx, contextData) # cs) \<longleftrightarrow>
     contextData = NullContext \<or> null_version contextData \<or> throwing cs"
  by (auto simp: throwing_def)

lemma importContextData_fold:
  "importContextData cs (M, C) =
     (if throwing cs then None
      else Some (fold (\<lambda>(k, v). AList.update k v) (document_manifests cs) M,
                 fold (\<lambda>(k, v). AList.update k v) (document_schemas cs) C))"
proof (induction cs arbitrary: M C)
  case Nil
  show ?case by (simp add: throwing_def document_manifests_def document_schemas_def)
next
  case (Cons c cs)
  obtain ctx contextData where c: "c = (ctx, contextData)" by (cases c)
  show ?case
  proof (cases contextData)
    case NullContext
    with c show ?thesis by (simp add: throwing_Cons)
  next
    case (ContextValue manifest vs)
    show ?thesis
    proof (cases vs)
      case None
      with c ContextValue Cons.IH show ?thesis
        by (simp add: throwing_Cons null_version_def document_manifests_def
              document_schemas_def context_manifest_def context_schemas_def)
    next
      case (Some tables)
      with c ContextValue Cons.IH show ?thesis
        by (simp add: throwing_Cons null_version_def document_manifests_def
              document_schemas_def context_manifest_def context_schemas_def
              importVersionTables_fold)
    qed
  qed
qed

text \<open>
  C3 as stated fails. The document \<^verbatim>\<open>{"contexts": {"default": {...}}}\<close> has no key
  \<^verbatim>\<open>'context-registry.json'\<close>; \<^verbatim>\<open>importData\<close> returns true for it, and the manifest and the
  schema document of the document are in the store, which held none.
\<close>

theorem importData_contexts_only_counterexample:
  "importData contexts_only_document initialState =
     Imported True
       (initialState\<lparr>contextManifests := [(''default'', default_manifest)],
                      schemas := [(''default@1.8.0/core.json'', core_schema)],
                      hasUnsavedChanges := True\<rparr>)
   \<and> contextManifests initialState = [] \<and> schemas initialState = []"
  by (simp add: importData_def contexts_only_document_def default_context_data_def
        initialState_def markUnsaved_def cacheKey_def loose_def typed_def)

text \<open>
  C3, as the code has it, for a document without a truthy \<^verbatim>\<open>'context-registry.json'\<close>.
  \<^item> Without a truthy \<^verbatim>\<open>contexts\<close> either, \<^verbatim>\<open>importData\<close> returns false and leaves the store
    as it is.
  \<^item> With \<^verbatim>\<open>contexts\<close>, it returns false and leaves the store as it is exactly when the
    value of a context, or of a version under \<^verbatim>\<open>versions\<close>, is \<^verbatim>\<open>null\<close>; otherwise it
    returns true.
  \<^item> When it returns true and the manifests and schema documents of the document have the
    declared shapes, the store it leaves is the one before with the unsaved mark and new
    maps: the registry and the cursors are as before; each map holds under a key the last
    value that the document gives for the key (a manifest under the name of its context,
    a schema document under its cache key), and what it held before where the document
    gives none.
\<close>

theorem importData_without_registry:
  "importData (JsonDocument Falsy None) s = Imported False s
   \<and> (throwing cs \<longrightarrow> importData (JsonDocument Falsy (Some cs)) s = Imported False s)
   \<and> (\<not> throwing cs \<longrightarrow> import_returned (importData (JsonDocument Falsy (Some cs)) s))
   \<and> (\<not> throwing cs \<and> shaped (document_manifests cs) \<and> shaped (document_schemas cs) \<longrightarrow>
        (\<exists>M C. importData (JsonDocument Falsy (Some cs)) s
                  = Imported True (markUnsaved (s\<lparr>contextManifests := M, schemas := C\<rparr>))
              \<and> (\<forall>k. map_option Shaped (map_of M k)
                       = after_setting (loose (contextManifests s)) (document_manifests cs) k)
              \<and> (\<forall>k. map_option Shaped (map_of C k)
                       = after_setting (loose (schemas s)) (document_schemas cs) k)))"
proof (intro conjI impI)
  show "importData (JsonDocument Falsy None) s = Imported False s"
    by (simp add: importData_def)
next
  assume "throwing cs"
  then show "importData (JsonDocument Falsy (Some cs)) s = Imported False s"
    by (simp add: importData_def importContextData_fold)
next
  assume "\<not> throwing cs"
  then show "import_returned (importData (JsonDocument Falsy (Some cs)) s)"
    by (simp add: importData_def importContextData_fold split: option.splits)
next
  assume a: "\<not> throwing cs \<and> shaped (document_manifests cs) \<and> shaped (document_schemas cs)"
  let ?set = "\<lambda>entries. fold (\<lambda>(k, v). AList.update k v) entries"
  from a shaped_fold [of "document_manifests cs" "contextManifests s"] obtain M where
    M: "?set (document_manifests cs) (loose (contextManifests s)) = loose M"
    by blast
  from a shaped_fold [of "document_schemas cs" "schemas s"] obtain C where
    C: "?set (document_schemas cs) (loose (schemas s)) = loose C"
    by blast
  from a have 1: "importData (JsonDocument Falsy (Some cs)) s
                    = Imported True (markUnsaved (s\<lparr>contextManifests := M, schemas := C\<rparr>))"
    by (simp add: importData_def importContextData_fold M C typed_loose)
  have 2: "map_option Shaped (map_of M k)
             = after_setting (loose (contextManifests s)) (document_manifests cs) k" for k
    using fold_update_lookup [of "document_manifests cs" "loose (contextManifests s)" k]
    by (simp add: M loose_lookup)
  have 3: "map_option Shaped (map_of C k)
             = after_setting (loose (schemas s)) (document_schemas cs) k" for k
    using fold_update_lookup [of "document_schemas cs" "loose (schemas s)" k]
    by (simp add: C loose_lookup)
  from 1 2 3
  show "\<exists>M C. importData (JsonDocument Falsy (Some cs)) s
                  = Imported True (markUnsaved (s\<lparr>contextManifests := M, schemas := C\<rparr>))
              \<and> (\<forall>k. map_option Shaped (map_of M k)
                       = after_setting (loose (contextManifests s)) (document_manifests cs) k)
              \<and> (\<forall>k. map_option Shaped (map_of C k)
                       = after_setting (loose (schemas s)) (document_schemas cs) k)"
    by blast
qed

theorem importData_without_registry_witness:
  "importData null_context_document example_store = Imported False example_store
   \<and> import_returned (importData contexts_only_document example_store)
   \<and> (\<exists>M C. importData contexts_only_document initialState
               = Imported True (markUnsaved (initialState\<lparr>contextManifests := M, schemas := C\<rparr>))
           \<and> map_of M ''default'' = Some default_manifest
           \<and> map_of C ''default@1.8.0/core.json'' = Some core_schema)"
proof -
  have thr: "throwing [(''default'', NullContext)]"
    by (simp add: throwing_def)
  have ok: "\<not> throwing [(''default'', default_context_data)]"
    by (simp add: throwing_def default_context_data_def null_version_def)
  have sh: "shaped (document_manifests [(''default'', default_context_data)])"
    "shaped (document_schemas [(''default'', default_context_data)])"
    by (simp_all add: shaped_def document_manifests_def document_schemas_def
          context_manifest_def context_schemas_def table_schemas_def default_context_data_def)
  have 1: "importData null_context_document example_store = Imported False example_store"
    using importData_without_registry [of example_store "[(''default'', NullContext)]"] thr
    by (simp add: null_context_document_def)
  have 2: "import_returned (importData contexts_only_document example_store)"
    using importData_without_registry [of example_store "[(''default'', default_context_data)]"] ok
    by (simp add: contexts_only_document_def)
  from importData_without_registry [of initialState "[(''default'', default_context_data)]"] ok sh
  obtain M C where
    r: "importData contexts_only_document initialState
          = Imported True (markUnsaved (initialState\<lparr>contextManifests := M, schemas := C\<rparr>))"
    and m: "\<forall>k. map_option Shaped (map_of M k)
                  = after_setting (loose (contextManifests initialState))
                      (document_manifests [(''default'', default_context_data)]) k"
    and c: "\<forall>k. map_option Shaped (map_of C k)
                  = after_setting (loose (schemas initialState))
                      (document_schemas [(''default'', default_context_data)]) k"
    unfolding contexts_only_document_def by blast
  from m [THEN spec, of "''default''"] have 3: "map_of M ''default'' = Some default_manifest"
    by (simp add: after_setting_def document_manifests_def context_manifest_def
          default_context_data_def)
  from c [THEN spec, of "''default@1.8.0/core.json''"]
  have 4: "map_of C ''default@1.8.0/core.json'' = Some core_schema"
    by (simp add: after_setting_def document_schemas_def context_schemas_def
          table_schemas_def default_context_data_def cacheKey_def)
  from 1 2 r 3 4 show ?thesis by blast
qed

section \<open>Cursors\<close>










end
